theory Spec2Isabelle
  imports Complex_Main "HOL-Library.Multiset"
begin

section \<open>Ring-weights core: memory blocks, faults and loops\<close>

text \<open>
  The development embeds \<^verbatim>\<open>RingWeights_core.c\<close>.  Samples (C \<^verbatim>\<open>float\<close>) are
  modelled as real numbers: comparison and selection are exact, and the three arithmetic
  combinations are taken without rounding, overflow or NaN.  The C integers (\<^verbatim>\<open>int\<close>,
  \<^verbatim>\<open>long\<close>) are unbounded integers; the conversion \<^verbatim>\<open>(int)(0.5f*w)\<close> truncates
  towards zero, which is what the float product does for every window length below
  \<open>2^24\<close>.  A buffer is the list of its cells.  The four volume buffers of one call
  (residual, weights and the two scratch blocks) are distinct blocks; every read and write
  is checked against the length of its block, and an access outside the block, which is
  undefined behaviour in C, is the value \<open>Inl\<close> of a fault.
\<close>

datatype fault =
    WindowOutOfBounds   \<comment> \<open>access outside the per-pixel block \<^verbatim>\<open>Values_Vec\<close>\<close>
  | BufferOutOfBounds   \<comment> \<open>access outside a volume buffer\<close>

definition bind_r :: "fault + 'a \<Rightarrow> ('a \<Rightarrow> fault + 'b) \<Rightarrow> fault + 'b" where
  "bind_r m f = (case m of Inl e \<Rightarrow> Inl e | Inr v \<Rightarrow> f v)"

definition rd :: "fault \<Rightarrow> real list \<Rightarrow> int \<Rightarrow> fault + real" where
  "rd flt blk n = (if 0 \<le> n \<and> n < int (length blk) then Inr (blk ! nat n) else Inl flt)"

definition wr :: "fault \<Rightarrow> real list \<Rightarrow> int \<Rightarrow> real \<Rightarrow> fault + real list" where
  "wr flt blk n v = (if 0 \<le> n \<and> n < int (length blk) then Inr (blk[nat n := v]) else Inl flt)"

text \<open>\<^verbatim>\<open>calloc (n, sizeof(float))\<close>: a fresh block of \<open>n\<close> zero cells.\<close>

definition calloc :: "int \<Rightarrow> real list" where
  "calloc n = replicate (nat n) 0"

text \<open>
  Loops.  \<open>for_list\<close> runs a body over the successive values of the loop variable and stops
  at the first fault.  \<open>for_upto N\<close> is \<^verbatim>\<open>for (n = 0; n < N; n++)\<close> and \<open>for_range lo hi\<close> is
  \<^verbatim>\<open>for (n = lo; n <= hi; n++)\<close>.
\<close>

fun for_list :: "int list \<Rightarrow> (int \<Rightarrow> 's \<Rightarrow> fault + 's) \<Rightarrow> 's \<Rightarrow> fault + 's" where
  "for_list [] body s = Inr s"
| "for_list (n # ns) body s = bind_r (body n s) (for_list ns body)"

definition for_upto :: "int \<Rightarrow> (int \<Rightarrow> 's \<Rightarrow> fault + 's) \<Rightarrow> 's \<Rightarrow> fault + 's" where
  "for_upto N body s = for_list [0..N - 1] body s"

definition for_range :: "int \<Rightarrow> int \<Rightarrow> (int \<Rightarrow> 's \<Rightarrow> fault + 's) \<Rightarrow> 's \<Rightarrow> fault + 's" where
  "for_range lo hi body s = for_list [lo..hi] body s"

section \<open>The per-pixel window: gather, sort, select\<close>

text \<open>\<^verbatim>\<open>swap (&V[x], &V[y])\<close> on two cells of the window block.\<close>

definition swap :: "real list \<Rightarrow> int \<Rightarrow> int \<Rightarrow> fault + real list" where
  "swap V xp yp =
     bind_r (rd WindowOutOfBounds V xp) (\<lambda>temp.
     bind_r (rd WindowOutOfBounds V yp) (\<lambda>yv.
     bind_r (wr WindowOutOfBounds V xp yv) (\<lambda>V'.
     wr WindowOutOfBounds V' yp temp)))"

text \<open>
  The gathering loop shared by the five filters: for each offset \<open>k\<close> from \<open>-h\<close> to \<open>h\<close> the
  sample chosen by the filter (\<open>sample k\<close>, a read of the source buffer) is stored at
  \<^verbatim>\<open>Values_Vec[counter]\<close> and the counter is advanced.
\<close>

definition gather_step ::
  "(int \<Rightarrow> fault + real) \<Rightarrow> int \<Rightarrow> real list \<times> int \<Rightarrow> fault + real list \<times> int" where
  "gather_step sample k st =
     (case st of (V, counter) \<Rightarrow>
        bind_r (sample k) (\<lambda>v.
        bind_r (wr WindowOutOfBounds V counter v) (\<lambda>V'. Inr (V', counter + 1))))"

definition gather ::
  "(int \<Rightarrow> fault + real) \<Rightarrow> int \<Rightarrow> real list \<Rightarrow> fault + real list \<times> int" where
  "gather sample h Values_Vec = for_range (- h) h (gather_step sample) (Values_Vec, 0)"

text \<open>
  The sorting loops:
  \<^verbatim>\<open>for (x = 0; x < counter-1; x++) for (y = 0; y < counter-x-1; y++)
      if (V[y] > V[y+1]) swap(&V[y], &V[y+1]);\<close>
\<close>

definition sort_step :: "int \<Rightarrow> real list \<Rightarrow> fault + real list" where
  "sort_step y V =
     bind_r (rd WindowOutOfBounds V y) (\<lambda>a.
     bind_r (rd WindowOutOfBounds V (y + 1)) (\<lambda>b.
     if a > b then swap V y (y + 1) else Inr V))"

definition sort_pass :: "int \<Rightarrow> int \<Rightarrow> real list \<Rightarrow> fault + real list" where
  "sort_pass counter x V = for_upto (counter - x - 1) sort_step V"

definition sort_window :: "int \<Rightarrow> real list \<Rightarrow> fault + real list" where
  "sort_window counter V = for_upto (counter - 1) (sort_pass counter) V"

text \<open>\<^verbatim>\<open>(int)(0.5f*w)\<close>: half of the window length, truncated towards zero.\<close>

definition half_trunc :: "int \<Rightarrow> int" where
  "half_trunc w = (if 0 \<le> w then w div 2 else - ((- w) div 2))"

text \<open>
  The body common to the five filters, between the computation of \<^verbatim>\<open>index\<close> and the
  final store: allocate the window, compute \<^verbatim>\<open>midval\<close>, gather, sort, read
  \<^verbatim>\<open>Values_Vec[midval]\<close>.
\<close>

definition window_median :: "int \<Rightarrow> int \<Rightarrow> (int \<Rightarrow> fault + real) \<Rightarrow> fault + real" where
  "window_median window_halfsize full_window sample =
     (let Values_Vec = calloc full_window;
          midval = half_trunc full_window - 1
      in bind_r (gather sample window_halfsize Values_Vec) (\<lambda>(V, counter).
         bind_r (sort_window counter V) (\<lambda>V'.
         rd WindowOutOfBounds V' midval)))"

section \<open>The five filters\<close>

text \<open>
  Each filter computes the flat index of its pixel, gathers along its own axis with the
  boundary test of the source, and stores the selected value in the destination buffer.
  The \<^verbatim>\<open>float\<close> each filter returns (the first cell of its destination) is discarded
  by every caller and is not modelled.
\<close>

definition det2D_sample :: "real list \<Rightarrow> int \<Rightarrow> int \<Rightarrow> int \<Rightarrow> int \<Rightarrow> fault + real" where
  "det2D_sample residual detectorsDim j i k =
     (let index = i * detectorsDim + j; j1 = j + k
      in if 0 \<le> j1 \<and> j1 < detectorsDim
         then rd BufferOutOfBounds residual (i * detectorsDim + j1)
         else rd BufferOutOfBounds residual index)"

definition RingWeights_det2D ::
  "real list \<Rightarrow> real list \<Rightarrow> int \<Rightarrow> int \<Rightarrow> int \<Rightarrow> int \<Rightarrow> int \<Rightarrow> int \<Rightarrow> fault + real list" where
  "RingWeights_det2D residual weights_temp window_halfsize_detectors detectors_full_window
       anglesDim detectorsDim j i =
     (let index = i * detectorsDim + j
      in bind_r (window_median window_halfsize_detectors detectors_full_window
                   (det2D_sample residual detectorsDim j i))
           (wr BufferOutOfBounds weights_temp index))"

definition angles2D_sample :: "real list \<Rightarrow> int \<Rightarrow> int \<Rightarrow> int \<Rightarrow> int \<Rightarrow> int \<Rightarrow> fault + real" where
  "angles2D_sample weights_temp anglesDim detectorsDim j i k =
     (let index = i * detectorsDim + j; i1 = i + k
      in if 0 \<le> i1 \<and> i1 < anglesDim
         then rd BufferOutOfBounds weights_temp (i1 * detectorsDim + j)
         else rd BufferOutOfBounds weights_temp index)"

definition RingWeights_angles2D ::
  "real list \<Rightarrow> real list \<Rightarrow> int \<Rightarrow> int \<Rightarrow> int \<Rightarrow> int \<Rightarrow> int \<Rightarrow> int \<Rightarrow> fault + real list" where
  "RingWeights_angles2D weights_temp weights window_halfsize_angles angles_full_window
       anglesDim detectorsDim j i =
     (let index = i * detectorsDim + j
      in bind_r (window_median window_halfsize_angles angles_full_window
                   (angles2D_sample weights_temp anglesDim detectorsDim j i))
           (wr BufferOutOfBounds weights index))"

definition proj3D_sample ::
  "real list \<Rightarrow> int \<Rightarrow> int \<Rightarrow> int \<Rightarrow> int \<Rightarrow> int \<Rightarrow> int \<Rightarrow> int \<Rightarrow> fault + real" where
  "proj3D_sample residual anglesDim detectorsDim slices j i k z =
     (let index = detectorsDim * anglesDim * k + i * detectorsDim + j; k1 = z + k
      in if 0 \<le> k1 \<and> k1 < slices
         then rd BufferOutOfBounds residual (detectorsDim * anglesDim * k1 + i * detectorsDim + j)
         else rd BufferOutOfBounds residual index)"

definition RingWeights_proj3D ::
  "real list \<Rightarrow> real list \<Rightarrow> int \<Rightarrow> int \<Rightarrow> int \<Rightarrow> int \<Rightarrow> int \<Rightarrow> int \<Rightarrow> int \<Rightarrow> int
     \<Rightarrow> fault + real list" where
  "RingWeights_proj3D residual weights_temp window_halfsize_projections projections_full_window
       anglesDim detectorsDim slices j i k =
     (let index = detectorsDim * anglesDim * k + i * detectorsDim + j
      in bind_r (window_median window_halfsize_projections projections_full_window
                   (proj3D_sample residual anglesDim detectorsDim slices j i k))
           (wr BufferOutOfBounds weights_temp index))"

definition det3D_sample ::
  "real list \<Rightarrow> int \<Rightarrow> int \<Rightarrow> int \<Rightarrow> int \<Rightarrow> int \<Rightarrow> int \<Rightarrow> fault + real" where
  "det3D_sample residual anglesDim detectorsDim j i k m =
     (let index = detectorsDim * anglesDim * k + i * detectorsDim + j; j1 = j + m
      in if 0 \<le> j1 \<and> j1 < detectorsDim
         then rd BufferOutOfBounds residual (detectorsDim * anglesDim * k + i * detectorsDim + j1)
         else rd BufferOutOfBounds residual index)"

definition RingWeights_det3D ::
  "real list \<Rightarrow> real list \<Rightarrow> int \<Rightarrow> int \<Rightarrow> int \<Rightarrow> int \<Rightarrow> int \<Rightarrow> int \<Rightarrow> int \<Rightarrow> int
     \<Rightarrow> fault + real list" where
  "RingWeights_det3D residual weights_temp window_halfsize_detectors detectors_full_window
       anglesDim detectorsDim slices j i k =
     (let index = detectorsDim * anglesDim * k + i * detectorsDim + j
      in bind_r (window_median window_halfsize_detectors detectors_full_window
                   (det3D_sample residual anglesDim detectorsDim j i k))
           (wr BufferOutOfBounds weights_temp index))"

definition angles3D_sample ::
  "real list \<Rightarrow> int \<Rightarrow> int \<Rightarrow> int \<Rightarrow> int \<Rightarrow> int \<Rightarrow> int \<Rightarrow> fault + real" where
  "angles3D_sample weights_temp anglesDim detectorsDim j i k m =
     (let index = detectorsDim * anglesDim * k + i * detectorsDim + j; i1 = i + m
      in if 0 \<le> i1 \<and> i1 < anglesDim
         then rd BufferOutOfBounds weights_temp (detectorsDim * anglesDim * k + i1 * detectorsDim + j)
         else rd BufferOutOfBounds weights_temp index)"

definition RingWeights_angles3D ::
  "real list \<Rightarrow> real list \<Rightarrow> int \<Rightarrow> int \<Rightarrow> int \<Rightarrow> int \<Rightarrow> int \<Rightarrow> int \<Rightarrow> int \<Rightarrow> int
     \<Rightarrow> fault + real list" where
  "RingWeights_angles3D weights_temp weights window_halfsize_angles angles_full_window
       anglesDim detectorsDim slices j i k =
     (let index = detectorsDim * anglesDim * k + i * detectorsDim + j
      in bind_r (window_median window_halfsize_angles angles_full_window
                   (angles3D_sample weights_temp anglesDim detectorsDim j i k))
           (wr BufferOutOfBounds weights index))"

section \<open>The driver \<^verbatim>\<open>RingWeights_main\<close>\<close>

text \<open>
  The loop nests of the driver.  \<open>loop2D\<close> is
  \<^verbatim>\<open>for (i < anglesDim) for (j < detectorsDim) cell (j, i)\<close>, and \<open>loop3D\<close> has the loop over
  \<^verbatim>\<open>k < slices\<close> around it; \<open>cell\<close> is one filter call on the destination buffer.
  The loops are run in the order written: the OpenMP pragma distributes the iterations of
  the outer loop, which write distinct cells of the destination and read the source only.
\<close>

definition loop2D ::
  "int \<Rightarrow> int \<Rightarrow> (int \<Rightarrow> int \<Rightarrow> real list \<Rightarrow> fault + real list) \<Rightarrow> real list \<Rightarrow> fault + real list" where
  "loop2D anglesDim detectorsDim cell dst =
     for_upto anglesDim (\<lambda>i. for_upto detectorsDim (\<lambda>j. cell j i)) dst"

definition loop3D ::
  "int \<Rightarrow> int \<Rightarrow> int \<Rightarrow> (int \<Rightarrow> int \<Rightarrow> int \<Rightarrow> real list \<Rightarrow> fault + real list) \<Rightarrow> real list
     \<Rightarrow> fault + real list" where
  "loop3D slices anglesDim detectorsDim cell dst =
     for_upto slices (\<lambda>k. for_upto anglesDim (\<lambda>i. for_upto detectorsDim (\<lambda>j. cell j i k))) dst"

text \<open>
  The elementwise loops \<^verbatim>\<open>for (i < n) weights[i] = rhs\<close>; the right-hand side reads cell
  \<open>i\<close> of other buffers and, in two branches, of \<open>weights\<close> itself.
\<close>

definition lift2 :: "(real \<Rightarrow> real \<Rightarrow> real) \<Rightarrow> fault + real \<Rightarrow> fault + real \<Rightarrow> fault + real" where
  "lift2 f a b = bind_r a (\<lambda>x. bind_r b (\<lambda>y. Inr (f x y)))"

definition store_each ::
  "int \<Rightarrow> (int \<Rightarrow> real list \<Rightarrow> fault + real) \<Rightarrow> real list \<Rightarrow> fault + real list" where
  "store_each n rhs weights =
     for_upto n (\<lambda>i W. bind_r (rhs i W) (wr BufferOutOfBounds W i)) weights"

text \<open>
  The branches of the driver act on the three buffers it writes:
  \<open>(weights, weights_temp, weights_temp2)\<close>.
\<close>

type_synonym buffers = "real list \<times> real list \<times> real list"

text \<open>2D, \<^verbatim>\<open>window_halfsize_angles == 0\<close> (source lines 57 to 64).\<close>

definition branch2D_detectors ::
  "real list \<Rightarrow> int \<Rightarrow> int \<Rightarrow> int \<Rightarrow> int \<Rightarrow> buffers \<Rightarrow> fault + buffers" where
  "branch2D_detectors residual window_halfsize_detectors detectors_full_window
       anglesDim detectorsDim bufs =
     (case bufs of (weights, weights_temp, weights_temp2) \<Rightarrow>
        bind_r (loop2D anglesDim detectorsDim
                  (\<lambda>j i W. RingWeights_det2D residual W window_halfsize_detectors
                              detectors_full_window anglesDim detectorsDim j i) weights_temp)
          (\<lambda>weights_temp.
        bind_r (store_each (anglesDim * detectorsDim)
                  (\<lambda>i W. lift2 (-) (rd BufferOutOfBounds residual i)
                                    (rd BufferOutOfBounds weights_temp i)) weights)
          (\<lambda>weights. Inr (weights, weights_temp, weights_temp2))))"

text \<open>2D, \<^verbatim>\<open>window_halfsize_angles != 0\<close> (source lines 65 to 78).\<close>

definition branch2D_angles_detectors ::
  "real list \<Rightarrow> int \<Rightarrow> int \<Rightarrow> int \<Rightarrow> int \<Rightarrow> int \<Rightarrow> int \<Rightarrow> buffers \<Rightarrow> fault + buffers" where
  "branch2D_angles_detectors residual window_halfsize_detectors detectors_full_window
       window_halfsize_angles angles_full_window anglesDim detectorsDim bufs =
     (case bufs of (weights, weights_temp, weights_temp2) \<Rightarrow>
        bind_r (loop2D anglesDim detectorsDim
                  (\<lambda>j i W. RingWeights_angles2D residual W window_halfsize_angles
                              angles_full_window anglesDim detectorsDim j i) weights_temp)
          (\<lambda>weights_temp.
        bind_r (loop2D anglesDim detectorsDim
                  (\<lambda>j i W. RingWeights_det2D residual W window_halfsize_detectors
                              detectors_full_window anglesDim detectorsDim j i) weights)
          (\<lambda>weights.
        bind_r (store_each (anglesDim * detectorsDim)
                  (\<lambda>i W. lift2 (-) (rd BufferOutOfBounds weights_temp i)
                                    (rd BufferOutOfBounds W i)) weights)
          (\<lambda>weights. Inr (weights, weights_temp, weights_temp2)))))"

text \<open>3D, \<^verbatim>\<open>angles == 0 && detectors == 0\<close>: slices only (source lines 84 to 93).\<close>

definition branch_projections ::
  "real list \<Rightarrow> int \<Rightarrow> int \<Rightarrow> int \<Rightarrow> int \<Rightarrow> int \<Rightarrow> buffers \<Rightarrow> fault + buffers" where
  "branch_projections residual window_halfsize_projections projections_full_window
       anglesDim detectorsDim slices bufs =
     (case bufs of (weights, weights_temp, weights_temp2) \<Rightarrow>
        bind_r (loop3D slices anglesDim detectorsDim
                  (\<lambda>j i k W. RingWeights_proj3D residual W window_halfsize_projections
                                projections_full_window anglesDim detectorsDim slices j i k)
                  weights_temp)
          (\<lambda>weights_temp.
        bind_r (store_each (anglesDim * detectorsDim * slices)
                  (\<lambda>i W. lift2 (-) (rd BufferOutOfBounds residual i)
                                    (rd BufferOutOfBounds weights_temp i)) weights)
          (\<lambda>weights. Inr (weights, weights_temp, weights_temp2))))"

text \<open>3D, \<^verbatim>\<open>angles == 0 && projections == 0\<close>: detectors only (source lines 94 to 103).\<close>

definition branch_detectors ::
  "real list \<Rightarrow> int \<Rightarrow> int \<Rightarrow> int \<Rightarrow> int \<Rightarrow> int \<Rightarrow> buffers \<Rightarrow> fault + buffers" where
  "branch_detectors residual window_halfsize_detectors detectors_full_window
       anglesDim detectorsDim slices bufs =
     (case bufs of (weights, weights_temp, weights_temp2) \<Rightarrow>
        bind_r (loop3D slices anglesDim detectorsDim
                  (\<lambda>j i k W. RingWeights_det3D residual W window_halfsize_detectors
                                detectors_full_window anglesDim detectorsDim slices j i k)
                  weights_temp)
          (\<lambda>weights_temp.
        bind_r (store_each (anglesDim * detectorsDim * slices)
                  (\<lambda>i W. lift2 (-) (rd BufferOutOfBounds residual i)
                                    (rd BufferOutOfBounds weights_temp i)) weights)
          (\<lambda>weights. Inr (weights, weights_temp, weights_temp2))))"

text \<open>3D, all three half-sizes non-zero (source lines 105 to 125).\<close>

definition branch_all ::
  "real list \<Rightarrow> int \<Rightarrow> int \<Rightarrow> int \<Rightarrow> int \<Rightarrow> int \<Rightarrow> int \<Rightarrow> int \<Rightarrow> int \<Rightarrow> int \<Rightarrow> buffers
     \<Rightarrow> fault + buffers" where
  "branch_all residual window_halfsize_detectors detectors_full_window
       window_halfsize_angles angles_full_window
       window_halfsize_projections projections_full_window
       anglesDim detectorsDim slices bufs =
     (case bufs of (weights, weights_temp, weights_temp2) \<Rightarrow>
        bind_r (loop3D slices anglesDim detectorsDim
                  (\<lambda>j i k W. RingWeights_angles3D residual W window_halfsize_angles
                                angles_full_window anglesDim detectorsDim slices j i k)
                  weights_temp)
          (\<lambda>weights_temp.
        bind_r (loop3D slices anglesDim detectorsDim
                  (\<lambda>j i k W. RingWeights_proj3D residual W window_halfsize_projections
                                projections_full_window anglesDim detectorsDim slices j i k)
                  weights_temp2)
          (\<lambda>weights_temp2.
        bind_r (loop3D slices anglesDim detectorsDim
                  (\<lambda>j i k W. RingWeights_det3D residual W window_halfsize_detectors
                                detectors_full_window anglesDim detectorsDim slices j i k)
                  weights)
          (\<lambda>weights.
        bind_r (store_each (anglesDim * detectorsDim * slices)
                  (\<lambda>i W. lift2 (-) (rd BufferOutOfBounds weights_temp i)
                             (lift2 (\<lambda>p d. 0.5 * (p + d))
                                (rd BufferOutOfBounds weights_temp2 i)
                                (rd BufferOutOfBounds W i))) weights)
          (\<lambda>weights. Inr (weights, weights_temp, weights_temp2))))))"

text \<open>3D, angles and projections non-zero, detectors zero (source lines 127 to 141).\<close>

definition branch_angles_projections ::
  "real list \<Rightarrow> int \<Rightarrow> int \<Rightarrow> int \<Rightarrow> int \<Rightarrow> int \<Rightarrow> int \<Rightarrow> int \<Rightarrow> buffers \<Rightarrow> fault + buffers" where
  "branch_angles_projections residual window_halfsize_angles angles_full_window
       window_halfsize_projections projections_full_window
       anglesDim detectorsDim slices bufs =
     (case bufs of (weights, weights_temp, weights_temp2) \<Rightarrow>
        bind_r (loop3D slices anglesDim detectorsDim
                  (\<lambda>j i k W. RingWeights_angles3D residual W window_halfsize_angles
                                angles_full_window anglesDim detectorsDim slices j i k)
                  weights_temp)
          (\<lambda>weights_temp.
        bind_r (loop3D slices anglesDim detectorsDim
                  (\<lambda>j i k W. RingWeights_proj3D residual W window_halfsize_projections
                                projections_full_window anglesDim detectorsDim slices j i k)
                  weights_temp2)
          (\<lambda>weights_temp2.
        bind_r (store_each (anglesDim * detectorsDim * slices)
                  (\<lambda>i W. lift2 (-) (rd BufferOutOfBounds weights_temp i)
                                    (rd BufferOutOfBounds weights_temp2 i)) weights)
          (\<lambda>weights. Inr (weights, weights_temp, weights_temp2)))))"

text \<open>3D, angles and detectors non-zero, projections zero (source lines 143 to 157).\<close>

definition branch_angles_detectors ::
  "real list \<Rightarrow> int \<Rightarrow> int \<Rightarrow> int \<Rightarrow> int \<Rightarrow> int \<Rightarrow> int \<Rightarrow> int \<Rightarrow> buffers \<Rightarrow> fault + buffers" where
  "branch_angles_detectors residual window_halfsize_detectors detectors_full_window
       window_halfsize_angles angles_full_window
       anglesDim detectorsDim slices bufs =
     (case bufs of (weights, weights_temp, weights_temp2) \<Rightarrow>
        bind_r (loop3D slices anglesDim detectorsDim
                  (\<lambda>j i k W. RingWeights_angles3D residual W window_halfsize_angles
                                angles_full_window anglesDim detectorsDim slices j i k)
                  weights_temp)
          (\<lambda>weights_temp.
        bind_r (loop3D slices anglesDim detectorsDim
                  (\<lambda>j i k W. RingWeights_det3D residual W window_halfsize_detectors
                                detectors_full_window anglesDim detectorsDim slices j i k)
                  weights_temp2)
          (\<lambda>weights_temp2.
        bind_r (store_each (anglesDim * detectorsDim * slices)
                  (\<lambda>i W. lift2 (-) (rd BufferOutOfBounds weights_temp i)
                                    (rd BufferOutOfBounds weights_temp2 i)) weights)
          (\<lambda>weights. Inr (weights, weights_temp, weights_temp2)))))"

text \<open>3D, angles zero, projections and detectors non-zero (source lines 158 to 172).\<close>

definition branch_projections_detectors ::
  "real list \<Rightarrow> int \<Rightarrow> int \<Rightarrow> int \<Rightarrow> int \<Rightarrow> int \<Rightarrow> int \<Rightarrow> int \<Rightarrow> buffers \<Rightarrow> fault + buffers" where
  "branch_projections_detectors residual window_halfsize_detectors detectors_full_window
       window_halfsize_projections projections_full_window
       anglesDim detectorsDim slices bufs =
     (case bufs of (weights, weights_temp, weights_temp2) \<Rightarrow>
        bind_r (loop3D slices anglesDim detectorsDim
                  (\<lambda>j i k W. RingWeights_proj3D residual W window_halfsize_projections
                                projections_full_window anglesDim detectorsDim slices j i k)
                  weights_temp)
          (\<lambda>weights_temp.
        bind_r (loop3D slices anglesDim detectorsDim
                  (\<lambda>j i k W. RingWeights_det3D residual W window_halfsize_detectors
                                detectors_full_window anglesDim detectorsDim slices j i k)
                  weights_temp2)
          (\<lambda>weights_temp2.
        bind_r (store_each (anglesDim * detectorsDim * slices)
                  (\<lambda>i W. lift2 (-) (rd BufferOutOfBounds residual i)
                             (lift2 (\<lambda>p d. 0.5 * (p + d))
                                (rd BufferOutOfBounds weights_temp i)
                                (rd BufferOutOfBounds weights_temp2 i))) weights)
          (\<lambda>weights. Inr (weights, weights_temp, weights_temp2)))))"

text \<open>\<^verbatim>\<open>if (c) { ... }\<close> without an else part.\<close>

definition when_r :: "bool \<Rightarrow> ('s \<Rightarrow> fault + 's) \<Rightarrow> 's \<Rightarrow> fault + 's" where
  "when_r c f s = (if c then f s else Inr s)"

text \<open>
  The driver.  The result is the final contents of the caller's \<open>weights\<close> buffer together
  with the returned \<^verbatim>\<open>float\<close>, \<^verbatim>\<open>*weights\<close>.  In the 3D path the six tests are
  evaluated one after the other, each on the buffers the previous one left.  The 2D path
  allocates no second scratch block; its branches are given the empty list in that place
  and never touch it.
\<close>

definition RingWeights_main ::
  "real list \<Rightarrow> real list \<Rightarrow> int \<Rightarrow> int \<Rightarrow> int \<Rightarrow> int \<Rightarrow> int \<Rightarrow> int \<Rightarrow> fault + real list \<times> real" where
  "RingWeights_main residual weights window_halfsize_detectors window_halfsize_angles
       window_halfsize_projections anglesDim detectorsDim slices =
     (let detectors_full_window = 2 * window_halfsize_detectors + 1;
          angles_full_window = 2 * window_halfsize_angles + 1;
          projections_full_window = 2 * window_halfsize_projections + 1;
          weights_temp = calloc (anglesDim * detectorsDim * slices)
      in
      bind_r
        (if slices = 1 then
           (if window_halfsize_angles = 0
            then branch2D_detectors residual window_halfsize_detectors detectors_full_window
                   anglesDim detectorsDim (weights, weights_temp, [])
            else branch2D_angles_detectors residual window_halfsize_detectors
                   detectors_full_window window_halfsize_angles angles_full_window
                   anglesDim detectorsDim (weights, weights_temp, []))
         else
           (let weights_temp2 = calloc (anglesDim * detectorsDim * slices)
            in
            bind_r (when_r (window_halfsize_angles = 0 \<and> window_halfsize_detectors = 0)
                      (branch_projections residual window_halfsize_projections
                         projections_full_window anglesDim detectorsDim slices)
                      (weights, weights_temp, weights_temp2))
              (\<lambda>bufs.
            bind_r (when_r (window_halfsize_angles = 0 \<and> window_halfsize_projections = 0)
                      (branch_detectors residual window_halfsize_detectors
                         detectors_full_window anglesDim detectorsDim slices) bufs)
              (\<lambda>bufs.
            bind_r (when_r (window_halfsize_angles \<noteq> 0 \<and> window_halfsize_projections \<noteq> 0
                              \<and> window_halfsize_detectors \<noteq> 0)
                      (branch_all residual window_halfsize_detectors detectors_full_window
                         window_halfsize_angles angles_full_window
                         window_halfsize_projections projections_full_window
                         anglesDim detectorsDim slices) bufs)
              (\<lambda>bufs.
            bind_r (when_r (window_halfsize_angles \<noteq> 0 \<and> window_halfsize_projections \<noteq> 0
                              \<and> window_halfsize_detectors = 0)
                      (branch_angles_projections residual window_halfsize_angles
                         angles_full_window window_halfsize_projections projections_full_window
                         anglesDim detectorsDim slices) bufs)
              (\<lambda>bufs.
            bind_r (when_r (window_halfsize_angles \<noteq> 0 \<and> window_halfsize_projections = 0
                              \<and> window_halfsize_detectors \<noteq> 0)
                      (branch_angles_detectors residual window_halfsize_detectors
                         detectors_full_window window_halfsize_angles angles_full_window
                         anglesDim detectorsDim slices) bufs)
              (\<lambda>bufs.
            when_r (window_halfsize_angles = 0 \<and> window_halfsize_projections \<noteq> 0
                      \<and> window_halfsize_detectors \<noteq> 0)
              (branch_projections_detectors residual window_halfsize_detectors
                 detectors_full_window window_halfsize_projections projections_full_window
                 anglesDim detectorsDim slices) bufs)))))))
        (\<lambda>bufs. case bufs of (weights, weights_temp, weights_temp2) \<Rightarrow>
           bind_r (rd BufferOutOfBounds weights 0) (\<lambda>r. Inr (weights, r))))"

section \<open>The specification's reading of the filters\<close>

text \<open>
  The definitions of this section do not come from the source.  They state the
  specification's data model and its axis-median filter in its own words, so that the
  driver can be compared with the formulas of the dispatch tables: row-major flattening
  \<open>index (angle, detector, slice) = slice * (angleCount * detectorCount) + angle * detectorCount
  + detector\<close>, the neighbourhood of \<open>2h+1\<close> taps along one axis in which a tap outside the
  axis is replaced by the centre value, and the order statistic at sorted index \<open>h - 1\<close>.
  For \<open>h = 0\<close> the specification names an index that does not exist; \<open>order_statistic\<close>
  then reads index 0 (\<open>nat\<close> truncates), the single value of the window.
\<close>

definition flat_index :: "int \<Rightarrow> int \<Rightarrow> int \<Rightarrow> int \<Rightarrow> int \<Rightarrow> int" where
  "flat_index angleCount detectorCount angle detector slice =
     slice * (angleCount * detectorCount) + angle * detectorCount + detector"

definition cell_at :: "real list \<Rightarrow> int \<Rightarrow> int \<Rightarrow> int \<Rightarrow> int \<Rightarrow> int \<Rightarrow> real" where
  "cell_at src angleCount detectorCount angle detector slice =
     src ! nat (flat_index angleCount detectorCount angle detector slice)"

definition detector_window ::
  "real list \<Rightarrow> int \<Rightarrow> int \<Rightarrow> int \<Rightarrow> int \<Rightarrow> int \<Rightarrow> int \<Rightarrow> real list" where
  "detector_window src h angleCount detectorCount angle detector slice =
     map (\<lambda>t. if 0 \<le> detector + t \<and> detector + t < detectorCount
              then cell_at src angleCount detectorCount angle (detector + t) slice
              else cell_at src angleCount detectorCount angle detector slice) [- h..h]"

definition angle_window ::
  "real list \<Rightarrow> int \<Rightarrow> int \<Rightarrow> int \<Rightarrow> int \<Rightarrow> int \<Rightarrow> int \<Rightarrow> real list" where
  "angle_window src h angleCount detectorCount angle detector slice =
     map (\<lambda>t. if 0 \<le> angle + t \<and> angle + t < angleCount
              then cell_at src angleCount detectorCount (angle + t) detector slice
              else cell_at src angleCount detectorCount angle detector slice) [- h..h]"

definition projection_window ::
  "real list \<Rightarrow> int \<Rightarrow> int \<Rightarrow> int \<Rightarrow> int \<Rightarrow> int \<Rightarrow> int \<Rightarrow> int \<Rightarrow> real list" where
  "projection_window src h angleCount detectorCount sliceCount angle detector slice =
     map (\<lambda>t. if 0 \<le> slice + t \<and> slice + t < sliceCount
              then cell_at src angleCount detectorCount angle detector (slice + t)
              else cell_at src angleCount detectorCount angle detector slice) [- h..h]"

definition order_statistic :: "int \<Rightarrow> real list \<Rightarrow> real" where
  "order_statistic h window = sort window ! nat (h - 1)"

text \<open>A volume given cell by cell, flattened in row-major order.\<close>

definition volume_of :: "int \<Rightarrow> int \<Rightarrow> int \<Rightarrow> (int \<Rightarrow> int \<Rightarrow> int \<Rightarrow> real) \<Rightarrow> real list" where
  "volume_of angleCount detectorCount sliceCount f =
     concat (map (\<lambda>slice.
       concat (map (\<lambda>angle.
         map (\<lambda>detector. f angle detector slice) [0..detectorCount - 1])
       [0..angleCount - 1]))
     [0..sliceCount - 1])"

definition DetectorMedian :: "real list \<Rightarrow> int \<Rightarrow> int \<Rightarrow> int \<Rightarrow> int \<Rightarrow> real list" where
  "DetectorMedian src h angleCount detectorCount sliceCount =
     volume_of angleCount detectorCount sliceCount (\<lambda>angle detector slice.
       order_statistic h (detector_window src h angleCount detectorCount angle detector slice))"

definition AngleMedian :: "real list \<Rightarrow> int \<Rightarrow> int \<Rightarrow> int \<Rightarrow> int \<Rightarrow> real list" where
  "AngleMedian src h angleCount detectorCount sliceCount =
     volume_of angleCount detectorCount sliceCount (\<lambda>angle detector slice.
       order_statistic h (angle_window src h angleCount detectorCount angle detector slice))"

definition ProjectionMedian :: "real list \<Rightarrow> int \<Rightarrow> int \<Rightarrow> int \<Rightarrow> int \<Rightarrow> real list" where
  "ProjectionMedian src h angleCount detectorCount sliceCount =
     volume_of angleCount detectorCount sliceCount (\<lambda>angle detector slice.
       order_statistic h
         (projection_window src h angleCount detectorCount sliceCount angle detector slice))"

text \<open>Elementwise combination of three volumes.\<close>

definition map3 :: "(real \<Rightarrow> real \<Rightarrow> real \<Rightarrow> real) \<Rightarrow> real list \<Rightarrow> real list \<Rightarrow> real list \<Rightarrow> real list" where
  "map3 f xs ys zs = map (\<lambda>(x, y, z). f x y z) (zip xs (zip ys zs))"
section \<open>Auxiliary facts\<close>

subsection \<open>Faults and loops\<close>

lemma bind_r_Inl [simp]: "bind_r (Inl e) f = Inl e"
  by (simp add: bind_r_def)

lemma bind_r_Inr [simp]: "bind_r (Inr v) f = f v"
  by (simp add: bind_r_def)

lemma rd_nat [simp]: "n < length blk \<Longrightarrow> rd flt blk (int n) = Inr (blk ! n)"
  by (simp add: rd_def)

lemma wr_nat [simp]: "n < length blk \<Longrightarrow> wr flt blk (int n) v = Inr (blk[n := v])"
  by (simp add: wr_def)

lemma for_list_append:
  "for_list (xs @ ys) body s = bind_r (for_list xs body s) (for_list ys body)"
  by (induction xs arbitrary: s) (auto simp: bind_r_def split: sum.splits)

lemma for_upto_nonpos [simp]: "N \<le> 0 \<Longrightarrow> for_upto N body s = Inr s"
  by (simp add: for_upto_def)

lemma for_upto_Suc:
  "for_upto (1 + int n) body s = bind_r (for_upto (int n) body s) (body (int n))"
proof -
  have "[0..1 + int n - 1] = [0..int n - 1] @ [int n]"
    using upto_rec2 [of 0 "int n"] by simp
  then show ?thesis
    by (simp add: for_upto_def for_list_append bind_r_def split: sum.splits)
qed

lemma for_upto_0 [simp]: "for_upto 0 body s = Inr s"
  by simp

subsection \<open>The sorting loops sort\<close>

lemma swap_nat:
  "x < length V \<Longrightarrow> y < length V \<Longrightarrow> swap V (int x) (int y) = Inr (V[x := V ! y, y := V ! x])"
  by (simp add: swap_def)

lemma sort_step_nat:
  assumes "Suc y < length V"
  shows "sort_step (int y) V =
           Inr (if V ! y > V ! Suc y then V[y := V ! Suc y, Suc y := V ! y] else V)"
proof -
  have e: "int y + 1 = int (Suc y)" by simp
  show ?thesis
    unfolding sort_step_def e using assms by (simp add: swap_nat del: of_nat_Suc)
qed

lemma sort_pass_aux:
  assumes "m < length V"
  shows "\<exists>V'. for_upto (int m) sort_step V = Inr V' \<and> length V' = length V
            \<and> mset (take (Suc m) V') = mset (take (Suc m) V)
            \<and> drop (Suc m) V' = drop (Suc m) V
            \<and> (\<forall>a \<in> set (take (Suc m) V'). a \<le> V' ! m)"
  using assms
proof (induction m)
  case 0
  then show ?case by (simp add: take_Suc_conv_app_nth)
next
  case (Suc m)
  then obtain U where U: "for_upto (int m) sort_step V = Inr U" "length U = length V"
    "mset (take (Suc m) U) = mset (take (Suc m) V)"
    "drop (Suc m) U = drop (Suc m) V"
    "\<forall>a \<in> set (take (Suc m) U). a \<le> U ! m"
    by auto
  have len: "Suc m < length U" using Suc.prems U(2) by simp
  define U' where "U' = (if U ! m > U ! Suc m then U[m := U ! Suc m, Suc m := U ! m] else U)"
  have step: "for_upto (int (Suc m)) sort_step V = Inr U'"
    by (simp add: for_upto_Suc U(1) sort_step_nat [OF len] U'_def)
  have l': "length U' = length V" by (simp add: U'_def U(2))
  have d': "drop (Suc (Suc m)) U' = drop (Suc (Suc m)) V"
  proof -
    have "drop (Suc (Suc m)) U' = drop (Suc (Suc m)) U" by (simp add: U'_def)
    also have "\<dots> = drop 1 (drop (Suc m) U)" by simp
    also have "\<dots> = drop 1 (drop (Suc m) V)" by (simp only: U(4))
    finally show ?thesis by simp
  qed
  have USm: "U ! Suc m = V ! Suc m"
  proof -
    have "U ! Suc m = hd (drop (Suc m) U)" using len by (simp add: hd_drop_conv_nth)
    also have "\<dots> = hd (drop (Suc m) V)" by (simp only: U(4))
    also have "\<dots> = V ! Suc m" using len U(2) by (simp add: hd_drop_conv_nth)
    finally show ?thesis .
  qed
  have tU: "take (Suc (Suc m)) U = take (Suc m) U @ [U ! Suc m]"
    using len by (simp add: take_Suc_conv_app_nth)
  have tV: "take (Suc (Suc m)) V = take (Suc m) V @ [V ! Suc m]"
    using len U(2) by (simp add: take_Suc_conv_app_nth)
  have mU: "mset (take (Suc (Suc m)) U) = mset (take (Suc (Suc m)) V)"
    by (simp add: tU tV U(3) USm)
  have m': "mset (take (Suc (Suc m)) U') = mset (take (Suc (Suc m)) V)"
  proof (cases "U ! m > U ! Suc m")
    case False then show ?thesis by (simp add: U'_def mU)
  next
    case True
    have "take (Suc (Suc m)) U' = (take (Suc (Suc m)) U)[m := U ! Suc m, Suc m := U ! m]"
      using True by (simp add: U'_def take_update_swap)
    also have "mset \<dots> = mset (take (Suc (Suc m)) U)"
      using mset_swap [of "Suc m" "take (Suc (Suc m)) U" m] len by simp
    finally show ?thesis by (simp add: mU)
  qed
  have mx: "\<forall>a \<in> set (take (Suc (Suc m)) U'). a \<le> U' ! Suc m"
  proof
    fix a assume "a \<in> set (take (Suc (Suc m)) U')"
    then have "a \<in># mset (take (Suc (Suc m)) U')" by simp
    then have "a \<in># mset (take (Suc (Suc m)) U)" by (simp only: m' mU)
    then have "a \<in> set (take (Suc m) U) \<or> a = U ! Suc m" by (auto simp: tU)
    then have "a \<le> U ! m \<or> a = U ! Suc m" using U(5) by auto
    moreover have "U' ! Suc m = max (U ! m) (U ! Suc m)"
      using len by (auto simp: U'_def)
    ultimately show "a \<le> U' ! Suc m" by auto
  qed
  show ?case using step l' m' d' mx by blast
qed

lemma sort_outer_aux:
  assumes "Suc x \<le> length V"
  shows "\<exists>U. for_upto (int x) (sort_pass (int (length V))) V = Inr U \<and> length U = length V
            \<and> mset U = mset V
            \<and> sorted (drop (length V - x) U)
            \<and> (\<forall>a \<in> set (take (length V - x) U). \<forall>b \<in> set (drop (length V - x) U). a \<le> b)"
  using assms
proof (induction x)
  case 0
  then show ?case by simp
next
  case (Suc x)
  define n where "n = length V"
  from Suc obtain U where U: "for_upto (int x) (sort_pass (int n)) V = Inr U" "length U = n"
    "mset U = mset V" "sorted (drop (n - x) U)"
    "\<forall>a \<in> set (take (n - x) U). \<forall>b \<in> set (drop (n - x) U). a \<le> b"
    unfolding n_def by auto
  define m where "m = n - x - 1"
  have xn: "Suc (Suc x) \<le> n" using Suc.prems by (simp add: n_def)
  have m: "m < length U" "Suc m = n - x" "int n - int x - 1 = int m"
    using xn U(2) by (auto simp: m_def)
  from sort_pass_aux [OF m(1)] obtain U' where U':
    "for_upto (int m) sort_step U = Inr U'" "length U' = length U"
    "mset (take (Suc m) U') = mset (take (Suc m) U)"
    "drop (Suc m) U' = drop (Suc m) U"
    "\<forall>a \<in> set (take (Suc m) U'). a \<le> U' ! m"
    by blast
  have step: "for_upto (int (Suc x)) (sort_pass (int n)) V = Inr U'"
    by (simp add: for_upto_Suc U(1) sort_pass_def m(3) U'(1))
  have sets: "set (take (Suc m) U') = set (take (Suc m) U)"
    using U'(3) by (rule mset_eq_setD)
  have ms: "mset U' = mset V"
  proof -
    have "mset U' = mset (take (Suc m) U') + mset (drop (Suc m) U')"
      by (simp flip: mset_append)
    also have "\<dots> = mset (take (Suc m) U) + mset (drop (Suc m) U)"
      by (simp only: U'(3) U'(4))
    also have "\<dots> = mset U"
      by (simp flip: mset_append)
    finally show ?thesis by (simp add: U(3))
  qed
  have dm: "drop m U' = U' ! m # drop (Suc m) U"
    using m(1) U'(2) Cons_nth_drop_Suc [of m U'] by (simp add: U'(4))
  have inm: "U' ! m \<in> set (take (Suc m) U')"
    using m(1) U'(2) by (simp add: take_Suc_conv_app_nth)
  have so: "sorted (drop m U')"
    using U(4) U(5) inm sets by (auto simp: dm m(2))
  have sub: "set (take m U') \<subseteq> set (take (Suc m) U')"
    by (meson le_SucI order_refl set_take_subset_set_take)
  have le: "\<forall>a \<in> set (take m U'). \<forall>b \<in> set (drop m U'). a \<le> b"
    using U(5) U'(5) sub sets by (auto simp: dm m(2))
  have nm: "n - Suc x = m" by (simp add: m_def)
  show ?case
    unfolding n_def [symmetric] nm using step U'(2) U(2) ms so le by auto
qed

lemma sort_window_sort: "sort_window (int (length V)) V = Inr (sort V)"
proof (cases "length V")
  case 0
  then show ?thesis by (simp add: sort_window_def)
next
  case (Suc x)
  then have "Suc x \<le> length V" by simp
  from sort_outer_aux [OF this] Suc obtain U where
    U: "for_upto (int x) (sort_pass (int (length V))) V = Inr U" "length U = length V"
    "mset U = mset V" "sorted (drop 1 U)"
    "\<forall>a \<in> set (take 1 U). \<forall>b \<in> set (drop 1 U). a \<le> b"
    by auto
  have "U = U ! 0 # drop 1 U"
    using U(2) Suc Cons_nth_drop_Suc [of 0 U] by simp
  moreover have "take 1 U = [U ! 0]"
    using U(2) Suc by (simp add: take_Suc_conv_app_nth)
  ultimately have "sorted U"
    using U(4) U(5) sorted_simps(2) [of "U ! 0" "drop 1 U"] by simp
  then have "sort V = U" using U(3) by (rule properties_for_sort [rotated]) 
  moreover have "int (length V) - 1 = int x" using Suc by simp
  ultimately show ?thesis by (simp add: sort_window_def U(1))
qed

subsection \<open>The gathered window and the selected cell\<close>

lemma gather_step_pair:
  "gather_step sample k (V, c) =
     bind_r (sample k) (\<lambda>v. bind_r (wr WindowOutOfBounds V c v) (\<lambda>V'. Inr (V', c + 1)))"
  by (simp add: gather_step_def)

lemma gather_list:
  assumes "\<forall>k \<in> set ks. sample k = Inr (g k)" "c + length ks \<le> length V"
  shows "for_list ks (gather_step sample) (V, int c) =
           Inr (take c V @ map g ks @ drop (c + length ks) V, int (c + length ks))"
  using assms
proof (induction ks arbitrary: V c)
  case Nil
  then show ?case by simp
next
  case (Cons k ks)
  have c: "c < length V" using Cons.prems(2) by simp
  have e: "int c + 1 = int (Suc c)" by simp
  have step: "gather_step sample k (V, int c) = Inr (V[c := g k], int (Suc c))"
    using Cons.prems(1) c by (simp add: gather_step_pair del: of_nat_Suc)
  have IH: "for_list ks (gather_step sample) (V[c := g k], int (Suc c)) =
     Inr (take (Suc c) (V[c := g k]) @ map g ks @ drop (Suc c + length ks) (V[c := g k]),
          int (Suc c + length ks))"
    using Cons.prems by (intro Cons.IH) auto
  have t: "take (Suc c) (V[c := g k]) = take c V @ [g k]"
    using c by (simp add: take_Suc_conv_app_nth)
  have d: "drop (Suc c + length ks) (V[c := g k]) = drop (c + length (k # ks)) V"
    by simp
  show ?case
    by (simp only: for_list.simps step bind_r_Inr IH t d) simp
qed

lemma gather_list_success:
  "for_list ks (gather_step sample) (V, c) = Inr (V', c') \<Longrightarrow>
     (\<forall>k \<in> set ks. \<exists>v. sample k = Inr v) \<and> length V' = length V \<and> c' = c + int (length ks)"
proof (induction ks arbitrary: V c)
  case Nil
  then show ?case by simp
next
  case (Cons k ks)
  from Cons.prems obtain v where v: "sample k = Inr v"
    by (cases "sample k") (auto simp: gather_step_pair)
  from Cons.prems v obtain U where U: "wr WindowOutOfBounds V c v = Inr U"
    by (cases "wr WindowOutOfBounds V c v") (auto simp: gather_step_pair)
  have lU: "length U = length V" using U by (auto simp: wr_def split: if_splits)
  from Cons.prems v U have "for_list ks (gather_step sample) (U, c + 1) = Inr (V', c')"
    by (simp add: gather_step_pair)
  from Cons.IH [OF this] show ?case using v lU by auto
qed

lemma length_window: "0 \<le> h \<Longrightarrow> length [- h..h] = nat (2 * h + 1)"
  by simp

lemma gather_ok:
  assumes "0 \<le> h" "\<forall>k. - h \<le> k \<and> k \<le> h \<longrightarrow> sample k = Inr (g k)"
  shows "gather sample h (calloc (2 * h + 1)) = Inr (map g [- h..h], 2 * h + 1)"
proof -
  have "for_list [- h..h] (gather_step sample) (calloc (2 * h + 1), int 0) =
          Inr (take 0 (calloc (2 * h + 1)) @ map g [- h..h]
                 @ drop (0 + length [- h..h]) (calloc (2 * h + 1)), int (0 + length [- h..h]))"
    using assms by (intro gather_list) (auto simp: calloc_def)
  then show ?thesis using assms(1) by (simp add: gather_def for_range_def calloc_def)
qed

lemma gather_success:
  assumes "0 \<le> h" "gather sample h (calloc (2 * h + 1)) = Inr (V, counter)"
  shows "length V = nat (2 * h + 1)" "counter = 2 * h + 1"
    "\<And>t. - h \<le> t \<Longrightarrow> t \<le> h \<Longrightarrow> sample t = Inr (V ! nat (t + h))"
proof -
  from assms(2) have f: "for_list [- h..h] (gather_step sample) (calloc (2 * h + 1), 0) = Inr (V, counter)"
    by (simp add: gather_def for_range_def)
  from gather_list_success [OF f] have s: "\<forall>k \<in> set [- h..h]. \<exists>v. sample k = Inr v"
    and l: "length V = length (calloc (2 * h + 1))" and c: "counter = 0 + int (length [- h..h])"
    by auto
  show "length V = nat (2 * h + 1)" using l by (simp add: calloc_def)
  show "counter = 2 * h + 1" using c assms(1) by simp
  define g where "g k = projr (sample k)" for k
  have gs: "sample k = Inr (g k)" if "- h \<le> k" "k \<le> h" for k
  proof -
    have "k \<in> set [- h..h]" using that by simp
    with s obtain v where "sample k = Inr v" by blast
    then show ?thesis by (simp add: g_def)
  qed
  then have "\<forall>k. - h \<le> k \<and> k \<le> h \<longrightarrow> sample k = Inr (g k)"
    by blast
  from gather_ok [OF assms(1) this] assms(2) have V: "V = map g [- h..h]" by simp
  fix t assume t: "- h \<le> t" "t \<le> h"
  have "[- h..h] ! nat (t + h) = - h + int (nat (t + h))"
    using t by (intro nth_upto) auto
  then have "V ! nat (t + h) = g t" using t V by (simp add: nth_map)
  moreover have "sample t = Inr (g t)" using gs t by simp
  ultimately show "sample t = Inr (V ! nat (t + h))" by simp
qed

lemma half_trunc_window: "0 \<le> h \<Longrightarrow> half_trunc (2 * h + 1) - 1 = h - 1"
  by (simp add: half_trunc_def)

lemma window_median_gathered:
  assumes "0 \<le> h" "gather sample h (calloc (2 * h + 1)) = Inr (V, counter)"
  shows "window_median h (2 * h + 1) sample =
           (if h = 0 then Inl WindowOutOfBounds else Inr (sort V ! nat (h - 1)))"
proof -
  note g = gather_success [OF assms]
  have c: "counter = int (length V)" using g(1,2) assms(1) by simp
  have "rd WindowOutOfBounds (sort V) (h - 1) =
          (if h = 0 then Inl WindowOutOfBounds else Inr (sort V ! nat (h - 1)))"
    using assms(1) g(1) by (auto simp: rd_def)
  then show ?thesis
    using assms(1) by (simp add: window_median_def Let_def assms(2) c sort_window_sort half_trunc_window)
qed

lemma window_median_ok:
  assumes "0 \<le> h" "\<forall>k. - h \<le> k \<and> k \<le> h \<longrightarrow> sample k = Inr (g k)"
  shows "window_median h (2 * h + 1) sample =
           (if h = 0 then Inl WindowOutOfBounds else Inr (sort (map g [- h..h]) ! nat (h - 1)))"
  using window_median_gathered [OF assms(1) gather_ok [OF assms]] .

subsection \<open>Loops that do not run\<close>

lemma for_list_skip:
  "(\<And>n s. body n s = Inr s) \<Longrightarrow> for_list ns body s = Inr s"
  by (induction ns) simp_all

lemma for_upto_skip:
  "(\<And>n s. body n s = Inr s) \<Longrightarrow> for_upto N body s = Inr s"
  by (simp add: for_upto_def for_list_skip)

lemma loop2D_empty:
  "anglesDim \<le> 0 \<or> detectorsDim \<le> 0 \<Longrightarrow> loop2D anglesDim detectorsDim cell dst = Inr dst"
  unfolding loop2D_def by (auto intro: for_upto_skip)

lemma loop3D_empty:
  "slices \<le> 0 \<or> anglesDim \<le> 0 \<or> detectorsDim \<le> 0 \<Longrightarrow>
     loop3D slices anglesDim detectorsDim cell dst = Inr dst"
proof -
  assume a: "slices \<le> 0 \<or> anglesDim \<le> 0 \<or> detectorsDim \<le> 0"
  have "for_upto anglesDim (\<lambda>i. for_upto detectorsDim (\<lambda>j. cell j i k)) s = Inr s"
    if "anglesDim \<le> 0 \<or> detectorsDim \<le> 0" for k s
    using that by (auto intro: for_upto_skip)
  then show ?thesis
    using a unfolding loop3D_def by (cases "slices \<le> 0") (auto intro: for_upto_skip)
qed

lemma store_each_empty: "n \<le> 0 \<Longrightarrow> store_each n rhs weights = Inr weights"
  by (simp add: store_each_def)

lemma rd_first: "weights \<noteq> [] \<Longrightarrow> rd flt weights 0 = Inr (weights ! 0)"
  by (simp add: rd_def)

lemma product_nonpos:
  fixes a d s :: int
  assumes "a * d * s \<le> 0"
  shows "s \<le> 0 \<or> a \<le> 0 \<or> d \<le> 0"
proof (rule ccontr)
  assume "\<not> ?thesis"
  then have "0 < a" "0 < d" "0 < s" by auto
  then have "0 < a * d * s" by simp
  with assms show False by simp
qed

subsection \<open>A loop nest fills the destination in row-major order\<close>

lemma length_concat_blocks:
  assumes "\<And>n. n < M \<Longrightarrow> length (blk (int n)) = sz"
  shows "length (concat (map blk [0..int M - 1])) = M * sz"
  using assms
proof (induction M)
  case 0
  then show ?case by simp
next
  case (Suc M)
  have "[0..int (Suc M) - 1] = [0..int M - 1] @ [int M]"
    using upto_rec2 [of 0 "int M"] by simp
  then show ?case using Suc by simp
qed

lemma for_upto_segments_aux:
  fixes blk :: "int \<Rightarrow> 'a list"
  assumes body: "\<And>n W. n < N \<Longrightarrow> length W = L \<Longrightarrow>
             body (int n) W = Inr (take (b + n * sz) W @ blk (int n) @ drop (b + Suc n * sz) W)"
    and blk: "\<And>n. n < N \<Longrightarrow> length (blk (int n)) = sz"
    and L: "b + N * sz \<le> L" "length W = L"
  shows "M \<le> N \<Longrightarrow>
     for_upto (int M) body W = Inr (take b W @ concat (map blk [0..int M - 1]) @ drop (b + M * sz) W)"
proof (induction M)
  case 0
  then show ?case by simp
next
  case (Suc M)
  define C where "C = concat (map blk [0..int M - 1])"
  define WM where "WM = take b W @ C @ drop (b + M * sz) W"
  have lC: "length C = M * sz"
    unfolding C_def using blk Suc.prems by (intro length_concat_blocks) simp
  have le: "b + Suc M * sz \<le> L"
  proof -
    have "Suc M * sz \<le> N * sz" using Suc.prems by (intro mult_le_mono1)
    then show ?thesis using L(1) by linarith
  qed
  then have le': "b + M * sz \<le> L" by simp
  have lWM: "length WM = L" using le' L(2) lC by (simp add: WM_def)
  have IH: "for_upto (int M) body W = Inr WM"
    using Suc by (simp add: WM_def C_def)
  have t: "take (b + M * sz) WM = take b W @ C"
    using le' L(2) lC by (simp add: WM_def)
  have d: "drop (b + Suc M * sz) WM = drop (b + Suc M * sz) W"
    using le L(2) lC by (simp add: WM_def add.commute add.left_commute)
  have u: "[0..int (Suc M) - 1] = [0..int M - 1] @ [int M]"
    using upto_rec2 [of 0 "int M"] by simp
  have "for_upto (int (Suc M)) body W = body (int M) WM"
    using for_upto_Suc [of M body W] IH by simp
  also have "\<dots> = Inr (take (b + M * sz) WM @ blk (int M) @ drop (b + Suc M * sz) WM)"
    using Suc.prems lWM by (intro body) simp_all
  also have "\<dots> = Inr (take b W @ concat (map blk [0..int (Suc M) - 1]) @ drop (b + Suc M * sz) W)"
    by (simp only: t d u) (simp add: C_def)
  finally show ?case .
qed

lemma for_upto_segments:
  fixes blk :: "int \<Rightarrow> 'a list"
  assumes "\<And>n W. n < N \<Longrightarrow> length W = L \<Longrightarrow>
             body (int n) W = Inr (take (b + n * sz) W @ blk (int n) @ drop (b + Suc n * sz) W)"
    and "\<And>n. n < N \<Longrightarrow> length (blk (int n)) = sz"
    and "b + N * sz \<le> L" "length W = L"
  shows "for_upto (int N) body W =
           Inr (take b W @ concat (map blk [0..int N - 1]) @ drop (b + N * sz) W)"
  using for_upto_segments_aux [OF assms, of N] by simp

lemma row_bound:
  fixes A D S i k :: nat
  assumes "i < A" "k < S"
  shows "D * A * k + i * D + D \<le> A * D * S"
proof -
  have "i * D + D \<le> A * D"
    using assms(1) by (metis Suc_leI mult_Suc mult_le_mono1 add.commute)
  moreover have "D * A * k + A * D \<le> A * D * S"
    using assms(2) by (metis Suc_leI mult_Suc_right mult_le_mono2 mult.commute add.commute)
  ultimately show ?thesis by linarith
qed

lemma cell_bound:
  fixes A D S i j k :: nat
  assumes "j < D" "i < A" "k < S"
  shows "D * A * k + i * D + j < A * D * S"
  using row_bound [OF assms(2,3), of D] assms(1) by linarith

lemma loop_row_fill:
  fixes W :: "'a list"
  assumes cell: "\<And>j W. j < D \<Longrightarrow> length W = A * D * S \<Longrightarrow>
             cell (int j) W = Inr (W[D * A * k + i * D + j := f (int j)])"
    and W: "length W = A * D * S" and ik: "i < A" "k < S"
  shows "for_upto (int D) cell W =
           Inr (take (D * A * k + i * D) W @ map f [0..int D - 1] @ drop (D * A * k + i * D + D) W)"
proof -
  have "for_upto (int D) cell W =
          Inr (take (D * A * k + i * D) W @ concat (map (\<lambda>j. [f j]) [0..int D - 1])
                 @ drop (D * A * k + i * D + D * 1) W)"
  proof (rule for_upto_segments [where L = "A * D * S" and b = "D * A * k + i * D" and sz = 1
        and blk = "\<lambda>j. [f j]" and N = D])
    fix j and W' :: "'a list" assume j: "j < D" and l: "length W' = A * D * S"
    have "D * A * k + i * D + j < length W'"
      using cell_bound [OF j ik] l by simp
    then show "cell (int j) W' = Inr (take (D * A * k + i * D + j * 1) W' @ [f (int j)]
                 @ drop (D * A * k + i * D + Suc j * 1) W')"
      using cell [OF j l] by (simp add: upd_conv_take_nth_drop)
  next
    show "D * A * k + i * D + D * 1 \<le> A * D * S"
      using row_bound [OF ik, of D] by simp
  qed (simp_all add: W)
  then show ?thesis by (simp add: concat_map_singleton)
qed

lemma loop3D_fill:
  fixes W :: "real list"
  assumes cell: "\<And>j i k W. j < D \<Longrightarrow> i < A \<Longrightarrow> k < S \<Longrightarrow> length W = A * D * S \<Longrightarrow>
             cell (int j) (int i) (int k) W = Inr (W[D * A * k + i * D + j := f (int i) (int j) (int k)])"
    and W: "length W = A * D * S"
  shows "loop3D (int S) (int A) (int D) cell W = Inr (volume_of (int A) (int D) (int S) f)"
proof -
  define row where "row k i = map (\<lambda>j. f i j k) [0..int D - 1]" for k i
  define slab where "slab k = concat (map (row k) [0..int A - 1])" for k
  have lrow: "length (row k i) = D" for k i by (simp add: row_def)
  have lslab: "length (slab (int k)) = A * D" for k
    unfolding slab_def by (rule length_concat_blocks) (simp add: lrow)
  have rows: "for_upto (int A) (\<lambda>i. for_upto (int D) (\<lambda>j. cell j i (int k))) W' =
          Inr (take (D * A * k) W' @ slab (int k) @ drop (D * A * k + A * D) W')"
    if k: "k < S" and l: "length W' = A * D * S" for k and W' :: "real list"
    unfolding slab_def
  proof (rule for_upto_segments [where L = "A * D * S" and b = "D * A * k" and sz = D
        and blk = "row (int k)" and N = A])
    fix i and W'' :: "real list" assume i: "i < A" and l': "length W'' = A * D * S"
    have "for_upto (int D) (\<lambda>j. cell j (int i) (int k)) W'' =
            Inr (take (D * A * k + i * D) W'' @ map (\<lambda>j. f (int i) j (int k)) [0..int D - 1]
                   @ drop (D * A * k + i * D + D) W'')"
      using cell i k l' by (intro loop_row_fill) auto
    then show "for_upto (int D) (\<lambda>j. cell j (int i) (int k)) W'' =
            Inr (take (D * A * k + i * D) W'' @ row (int k) (int i) @ drop (D * A * k + Suc i * D) W'')"
      by (simp add: row_def add_ac)
  next
    show "D * A * k + A * D \<le> A * D * S"
      using k by (metis Suc_leI mult_Suc_right mult_le_mono2 mult.commute add.commute)
  qed (simp_all add: lrow l)
  have "for_upto (int S) (\<lambda>k. for_upto (int A) (\<lambda>i. for_upto (int D) (\<lambda>j. cell j i k))) W =
          Inr (take 0 W @ concat (map slab [0..int S - 1]) @ drop (0 + S * (A * D)) W)"
  proof (rule for_upto_segments [where L = "A * D * S" and b = 0 and sz = "A * D"
        and blk = slab and N = S])
    fix k and W' :: "real list" assume k: "k < S" and l: "length W' = A * D * S"
    show "for_upto (int A) (\<lambda>i. for_upto (int D) (\<lambda>j. cell j i (int k))) W' =
            Inr (take (0 + k * (A * D)) W' @ slab (int k) @ drop (0 + Suc k * (A * D)) W')"
    proof -
      have "D * A * k = k * (A * D)" "D * A * k + A * D = Suc k * (A * D)"
        by (simp_all add: algebra_simps)
      then show ?thesis using rows [OF k l] by (simp only: add_0)
    qed
  qed (simp_all add: lslab W mult_ac)
  then show ?thesis
    using W by (simp add: loop3D_def volume_of_def slab_def [abs_def] row_def [abs_def] mult_ac)
qed

subsection \<open>One filter call writes the order statistic of the specified window\<close>

lemma for_upto_1: "for_upto 1 body s = body 0 s"
  by (cases "body 0 s") (simp_all add: for_upto_def)

lemma loop2D_fill:
  fixes W :: "real list"
  assumes cell: "\<And>j i W. j < D \<Longrightarrow> i < A \<Longrightarrow> length W = A * D \<Longrightarrow>
             cell (int j) (int i) W = Inr (W[i * D + j := f (int i) (int j)])"
    and W: "length W = A * D"
  shows "loop2D (int A) (int D) cell W = Inr (volume_of (int A) (int D) 1 (\<lambda>a d s. f a d))"
proof -
  have "loop3D (int 1) (int A) (int D) (\<lambda>j i k. cell j i) W =
          Inr (volume_of (int A) (int D) (int 1) (\<lambda>a d s. f a d))"
    using cell W by (intro loop3D_fill) simp_all
  then show ?thesis by (simp add: loop3D_def loop2D_def for_upto_1)
qed

lemma flat_index_nat:
  "flat_index (int A) (int D) (int i) (int j) (int k) = int (D * A * k + i * D + j)"
  by (simp add: flat_index_def mult_ac)

lemma rd_flat:
  assumes "j < D" "i < A" "k < S" "length src = A * D * S"
  shows "rd flt src (int D * int A * int k + int i * int D + int j) =
           Inr (cell_at src (int A) (int D) (int i) (int j) (int k))"
proof -
  have e: "int D * int A * int k + int i * int D + int j = int (D * A * k + i * D + j)"
    by simp
  have "D * A * k + i * D + j < length src"
    using cell_bound [OF assms(1-3)] assms(4) by simp
  then have "rd flt src (int (D * A * k + i * D + j)) = Inr (src ! (D * A * k + i * D + j))"
    by (rule rd_nat)
  moreover have "cell_at src (int A) (int D) (int i) (int j) (int k) = src ! (D * A * k + i * D + j)"
    by (simp only: cell_at_def flat_index_nat nat_int)
  ultimately show ?thesis by (simp only: e)
qed

lemma rd_flat2:
  assumes "j < D" "i < A" "length src = A * D"
  shows "rd flt src (int i * int D + int j) = Inr (cell_at src (int A) (int D) (int i) (int j) 0)"
  using rd_flat [of j D i A 0 1 src flt] assms by simp

lemma wr_flat:
  assumes "j < D" "i < A" "k < S" "length W = A * D * S"
  shows "wr flt W (int D * int A * int k + int i * int D + int j) v =
           Inr (W[D * A * k + i * D + j := v])"
proof -
  have e: "int D * int A * int k + int i * int D + int j = int (D * A * k + i * D + j)"
    by simp
  have "D * A * k + i * D + j < length W"
    using cell_bound [OF assms(1-3)] assms(4) by simp
  then have "wr flt W (int (D * A * k + i * D + j)) v = Inr (W[D * A * k + i * D + j := v])"
    by (rule wr_nat)
  then show ?thesis by (simp only: e)
qed

lemma wr_flat2:
  assumes "j < D" "i < A" "length W = A * D"
  shows "wr flt W (int i * int D + int j) v = Inr (W[i * D + j := v])"
  using wr_flat [of j D i A 0 1 W flt v] assms by simp

lemma filter_cell:
  assumes "0 \<le> h" "\<And>t. sample t = Inr (g t)" "\<And>v. wr BufferOutOfBounds W index v = Inr (W[n := v])"
  shows "bind_r (window_median h (2 * h + 1) sample) (wr BufferOutOfBounds W index) =
           (if h = 0 then Inl WindowOutOfBounds
            else Inr (W[n := order_statistic h (map g [- h..h])]))"
proof -
  have "\<forall>t. - h \<le> t \<and> t \<le> h \<longrightarrow> sample t = Inr (g t)" using assms(2) by simp
  from window_median_ok [OF assms(1) this] show ?thesis
    by (simp add: assms(3) order_statistic_def)
qed

lemma nat_offset:
  assumes "0 \<le> int j + t" "int j + t < int D"
  obtains j1 where "int j + t = int j1" "j1 < D"
proof -
  have "int j + t = int (nat (int j + t))" "nat (int j + t) < D"
    using assms by simp_all
  then show ?thesis using that by blast
qed

lemma det3D_sample_ok:
  assumes "j < D" "i < A" "k < S" "length residual = A * D * S"
  shows "det3D_sample residual (int A) (int D) (int j) (int i) (int k) t =
           Inr (if 0 \<le> int j + t \<and> int j + t < int D
                then cell_at residual (int A) (int D) (int i) (int j + t) (int k)
                else cell_at residual (int A) (int D) (int i) (int j) (int k))"
proof (cases "0 \<le> int j + t \<and> int j + t < int D")
  case True
  then obtain j1 where j1: "int j + t = int j1" "j1 < D"
    using nat_offset by blast
  have "0 \<le> int j1 \<and> int j1 < int D" using j1(2) by simp
  then show ?thesis
    unfolding det3D_sample_def Let_def j1(1)
    by (simp only: simp_thms if_True rd_flat [OF j1(2) assms(2-4)])
next
  case False
  show ?thesis
    unfolding det3D_sample_def Let_def
    by (simp only: False if_False rd_flat [OF assms])
qed

lemma det3D_cell:
  assumes "j < D" "i < A" "k < S" "length W = A * D * S" "length residual = A * D * S" "0 \<le> h"
  shows "RingWeights_det3D residual W h (2 * h + 1) (int A) (int D) (int S) (int j) (int i) (int k) =
           (if h = 0 then Inl WindowOutOfBounds
            else Inr (W[D * A * k + i * D + j :=
              order_statistic h (detector_window residual h (int A) (int D) (int i) (int j) (int k))]))"
  unfolding RingWeights_det3D_def Let_def detector_window_def
  by (rule filter_cell [OF assms(6) det3D_sample_ok [OF assms(1-3,5)] wr_flat [OF assms(1-4)]])

lemma angles3D_sample_ok:
  assumes "j < D" "i < A" "k < S" "length src = A * D * S"
  shows "angles3D_sample src (int A) (int D) (int j) (int i) (int k) t =
           Inr (if 0 \<le> int i + t \<and> int i + t < int A
                then cell_at src (int A) (int D) (int i + t) (int j) (int k)
                else cell_at src (int A) (int D) (int i) (int j) (int k))"
proof (cases "0 \<le> int i + t \<and> int i + t < int A")
  case True
  then obtain i1 where i1: "int i + t = int i1" "i1 < A"
    using nat_offset by blast
  have "0 \<le> int i1 \<and> int i1 < int A" using i1(2) by simp
  then show ?thesis
    unfolding angles3D_sample_def Let_def i1(1)
    by (simp only: simp_thms if_True rd_flat [OF assms(1) i1(2) assms(3,4)])
next
  case False
  show ?thesis
    unfolding angles3D_sample_def Let_def
    by (simp only: False if_False rd_flat [OF assms])
qed

lemma angles3D_cell:
  assumes "j < D" "i < A" "k < S" "length W = A * D * S" "length src = A * D * S" "0 \<le> h"
  shows "RingWeights_angles3D src W h (2 * h + 1) (int A) (int D) (int S) (int j) (int i) (int k) =
           (if h = 0 then Inl WindowOutOfBounds
            else Inr (W[D * A * k + i * D + j :=
              order_statistic h (angle_window src h (int A) (int D) (int i) (int j) (int k))]))"
  unfolding RingWeights_angles3D_def Let_def angle_window_def
  by (rule filter_cell [OF assms(6) angles3D_sample_ok [OF assms(1-3,5)] wr_flat [OF assms(1-4)]])

lemma proj3D_sample_ok:
  assumes "j < D" "i < A" "k < S" "length residual = A * D * S"
  shows "proj3D_sample residual (int A) (int D) (int S) (int j) (int i) (int k) t =
           Inr (if 0 \<le> int k + t \<and> int k + t < int S
                then cell_at residual (int A) (int D) (int i) (int j) (int k + t)
                else cell_at residual (int A) (int D) (int i) (int j) (int k))"
proof (cases "0 \<le> int k + t \<and> int k + t < int S")
  case True
  then obtain k1 where k1: "int k + t = int k1" "k1 < S"
    using nat_offset by blast
  have c: "t + int k = int k1" using k1(1) by simp
  have "0 \<le> int k1 \<and> int k1 < int S" using k1(2) by simp
  then show ?thesis
    unfolding proj3D_sample_def Let_def c k1(1)
    by (simp only: simp_thms if_True rd_flat [OF assms(1,2) k1(2) assms(4)])
next
  case False
  then have c: "\<not> (0 \<le> t + int k \<and> t + int k < int S)" by (simp add: add.commute)
  show ?thesis
    unfolding proj3D_sample_def Let_def
    by (simp only: False c if_False rd_flat [OF assms])
qed

lemma proj3D_cell:
  assumes "j < D" "i < A" "k < S" "length W = A * D * S" "length residual = A * D * S" "0 \<le> h"
  shows "RingWeights_proj3D residual W h (2 * h + 1) (int A) (int D) (int S) (int j) (int i) (int k) =
           (if h = 0 then Inl WindowOutOfBounds
            else Inr (W[D * A * k + i * D + j :=
              order_statistic h
                (projection_window residual h (int A) (int D) (int S) (int i) (int j) (int k))]))"
  unfolding RingWeights_proj3D_def Let_def projection_window_def
  by (rule filter_cell [OF assms(6) proj3D_sample_ok [OF assms(1-3,5)] wr_flat [OF assms(1-4)]])

lemma det2D_sample_ok:
  assumes "j < D" "i < A" "length residual = A * D"
  shows "det2D_sample residual (int D) (int j) (int i) t =
           Inr (if 0 \<le> int j + t \<and> int j + t < int D
                then cell_at residual (int A) (int D) (int i) (int j + t) 0
                else cell_at residual (int A) (int D) (int i) (int j) 0)"
proof (cases "0 \<le> int j + t \<and> int j + t < int D")
  case True
  then obtain j1 where j1: "int j + t = int j1" "j1 < D"
    using nat_offset by blast
  have "0 \<le> int j1 \<and> int j1 < int D" using j1(2) by simp
  then show ?thesis
    unfolding det2D_sample_def Let_def j1(1)
    by (simp only: simp_thms if_True rd_flat2 [OF j1(2) assms(2,3)])
next
  case False
  show ?thesis
    unfolding det2D_sample_def Let_def
    by (simp only: False if_False rd_flat2 [OF assms])
qed

lemma det2D_cell:
  assumes "j < D" "i < A" "length W = A * D" "length residual = A * D" "0 \<le> h"
  shows "RingWeights_det2D residual W h (2 * h + 1) (int A) (int D) (int j) (int i) =
           (if h = 0 then Inl WindowOutOfBounds
            else Inr (W[i * D + j :=
              order_statistic h (detector_window residual h (int A) (int D) (int i) (int j) 0)]))"
  unfolding RingWeights_det2D_def Let_def detector_window_def
  by (rule filter_cell [OF assms(5) det2D_sample_ok [OF assms(1,2,4)] wr_flat2 [OF assms(1-3)]])

lemma angles2D_sample_ok:
  assumes "j < D" "i < A" "length src = A * D"
  shows "angles2D_sample src (int A) (int D) (int j) (int i) t =
           Inr (if 0 \<le> int i + t \<and> int i + t < int A
                then cell_at src (int A) (int D) (int i + t) (int j) 0
                else cell_at src (int A) (int D) (int i) (int j) 0)"
proof (cases "0 \<le> int i + t \<and> int i + t < int A")
  case True
  then obtain i1 where i1: "int i + t = int i1" "i1 < A"
    using nat_offset by blast
  have "0 \<le> int i1 \<and> int i1 < int A" using i1(2) by simp
  then show ?thesis
    unfolding angles2D_sample_def Let_def i1(1)
    by (simp only: simp_thms if_True rd_flat2 [OF assms(1) i1(2) assms(3)])
next
  case False
  show ?thesis
    unfolding angles2D_sample_def Let_def
    by (simp only: False if_False rd_flat2 [OF assms])
qed

lemma angles2D_cell:
  assumes "j < D" "i < A" "length W = A * D" "length src = A * D" "0 \<le> h"
  shows "RingWeights_angles2D src W h (2 * h + 1) (int A) (int D) (int j) (int i) =
           (if h = 0 then Inl WindowOutOfBounds
            else Inr (W[i * D + j :=
              order_statistic h (angle_window src h (int A) (int D) (int i) (int j) 0)]))"
  unfolding RingWeights_angles2D_def Let_def angle_window_def
  by (rule filter_cell [OF assms(5) angles2D_sample_ok [OF assms(1,2,4)] wr_flat2 [OF assms(1-3)]])

subsection \<open>Whole passes and elementwise loops\<close>

lemma length_volume_of:
  "length (volume_of (int A) (int D) (int S) f) = A * D * S"
proof -
  have "length (concat (map (\<lambda>a. map (\<lambda>d. f a d s) [0..int D - 1]) [0..int A - 1])) = A * D" for s
    by (rule length_concat_blocks) simp
  then have "length (volume_of (int A) (int D) (int S) f) = S * (A * D)"
    unfolding volume_of_def by (intro length_concat_blocks) simp
  then show ?thesis by (simp add: mult_ac)
qed

lemma volume_of_one_slice:
  "volume_of A D 1 f = volume_of A D 1 (\<lambda>a d s. f a d 0)"
  by (simp add: volume_of_def)

lemma det3D_pass:
  assumes "length W = A * D * S" "length residual = A * D * S" "1 \<le> h"
  shows "loop3D (int S) (int A) (int D)
           (\<lambda>j i k W. RingWeights_det3D residual W h (2 * h + 1) (int A) (int D) (int S) j i k) W =
         Inr (DetectorMedian residual h (int A) (int D) (int S))"
  unfolding DetectorMedian_def using assms
  by (intro loop3D_fill) (simp_all add: det3D_cell)

lemma angles3D_pass:
  assumes "length W = A * D * S" "length residual = A * D * S" "1 \<le> h"
  shows "loop3D (int S) (int A) (int D)
           (\<lambda>j i k W. RingWeights_angles3D residual W h (2 * h + 1) (int A) (int D) (int S) j i k) W =
         Inr (AngleMedian residual h (int A) (int D) (int S))"
  unfolding AngleMedian_def using assms
  by (intro loop3D_fill) (simp_all add: angles3D_cell)

lemma proj3D_pass:
  assumes "length W = A * D * S" "length residual = A * D * S" "1 \<le> h"
  shows "loop3D (int S) (int A) (int D)
           (\<lambda>j i k W. RingWeights_proj3D residual W h (2 * h + 1) (int A) (int D) (int S) j i k) W =
         Inr (ProjectionMedian residual h (int A) (int D) (int S))"
  unfolding ProjectionMedian_def using assms
  by (intro loop3D_fill) (simp_all add: proj3D_cell)

lemma det2D_pass:
  assumes "length W = A * D" "length residual = A * D" "1 \<le> h"
  shows "loop2D (int A) (int D)
           (\<lambda>j i W. RingWeights_det2D residual W h (2 * h + 1) (int A) (int D) j i) W =
         Inr (DetectorMedian residual h (int A) (int D) 1)"
  unfolding DetectorMedian_def volume_of_one_slice [of _ _ "\<lambda>a d s. order_statistic h (detector_window residual h (int A) (int D) a d s)"]
  using assms
  by (intro loop2D_fill) (simp_all add: det2D_cell)

lemma angles2D_pass:
  assumes "length W = A * D" "length residual = A * D" "1 \<le> h"
  shows "loop2D (int A) (int D)
           (\<lambda>j i W. RingWeights_angles2D residual W h (2 * h + 1) (int A) (int D) j i) W =
         Inr (AngleMedian residual h (int A) (int D) 1)"
  unfolding AngleMedian_def volume_of_one_slice [of _ _ "\<lambda>a d s. order_statistic h (angle_window residual h (int A) (int D) a d s)"]
  using assms
  by (intro loop2D_fill) (simp_all add: angles2D_cell)

lemma store_each_fill_aux:
  assumes rhs: "\<And>n W'. n < N \<Longrightarrow> length W' = N \<Longrightarrow> W' ! n = W ! n \<Longrightarrow> rhs (int n) W' = Inr (F n)"
    and W: "length W = N"
  shows "M \<le> N \<Longrightarrow>
     for_upto (int M) (\<lambda>i W. bind_r (rhs i W) (wr BufferOutOfBounds W i)) W =
       Inr (map F [0..<M] @ drop M W)"
proof (induction M)
  case 0
  then show ?case by simp
next
  case (Suc M)
  define WM where "WM = map F [0..<M] @ drop M W"
  have M: "M < N" using Suc.prems by simp
  have l: "length WM = N" using M W by (simp add: WM_def)
  have nth: "WM ! M = W ! M" using M W by (simp add: WM_def nth_append)
  have IH: "for_upto (int M) (\<lambda>i W. bind_r (rhs i W) (wr BufferOutOfBounds W i)) W = Inr WM"
    using Suc by (simp add: WM_def)
  have upd: "WM[M := F M] = map F [0..<Suc M] @ drop (Suc M) W"
    using M W by (simp add: WM_def list_update_append Cons_nth_drop_Suc [symmetric])
  have "for_upto (int (Suc M)) (\<lambda>i W. bind_r (rhs i W) (wr BufferOutOfBounds W i)) W =
          bind_r (rhs (int M) WM) (wr BufferOutOfBounds WM (int M))"
    using for_upto_Suc [of M _ W] IH by simp
  also have "\<dots> = Inr (WM[M := F M])"
    using rhs [OF M l nth] M l by simp
  finally show ?case by (simp only: upd)
qed

lemma store_each_fill:
  assumes "\<And>n W'. n < N \<Longrightarrow> length W' = N \<Longrightarrow> W' ! n = W ! n \<Longrightarrow> rhs (int n) W' = Inr (F n)"
    and "length W = N" and "m = int N"
  shows "store_each m rhs W = Inr (map F [0..<N])"
proof -
  have "for_upto (int N) (\<lambda>i W. bind_r (rhs i W) (wr BufferOutOfBounds W i)) W =
          Inr (map F [0..<N] @ drop N W)"
  proof (rule store_each_fill_aux [where N = N])
    show "rhs (int n) W' = Inr (F n)" if "n < N" "length W' = N" "W' ! n = W ! n" for n W'
      using that by (rule assms(1))
  qed (simp_all add: assms(2))
  then show ?thesis using assms(2,3) by (simp add: store_each_def)
qed

lemma map2_nth:
  "length xs = N \<Longrightarrow> length ys = N \<Longrightarrow> map (\<lambda>n. f (xs ! n) (ys ! n)) [0..<N] = map2 f xs ys"
  by (rule nth_equalityI) simp_all

lemma map3_nth:
  "length xs = N \<Longrightarrow> length ys = N \<Longrightarrow> length zs = N \<Longrightarrow>
     map (\<lambda>n. f (xs ! n) (ys ! n) (zs ! n)) [0..<N] = map3 f xs ys zs"
  unfolding map3_def by (rule nth_equalityI) simp_all

lemma store_sub_other:
  assumes "length X = N" "length Y = N" "length W = N" "m = int N"
  shows "store_each m (\<lambda>i W. lift2 f (rd BufferOutOfBounds X i) (rd BufferOutOfBounds Y i)) W =
           Inr (map2 f X Y)"
proof -
  have "store_each m (\<lambda>i W. lift2 f (rd BufferOutOfBounds X i) (rd BufferOutOfBounds Y i)) W =
          Inr (map (\<lambda>n. f (X ! n) (Y ! n)) [0..<N])"
    using assms by (intro store_each_fill) (simp_all add: lift2_def)
  then show ?thesis by (simp add: map2_nth assms)
qed

lemma store_sub_self:
  assumes "length X = N" "length W = N" "m = int N"
  shows "store_each m (\<lambda>i W. lift2 f (rd BufferOutOfBounds X i) (rd BufferOutOfBounds W i)) W =
           Inr (map2 f X W)"
proof -
  have "store_each m (\<lambda>i W. lift2 f (rd BufferOutOfBounds X i) (rd BufferOutOfBounds W i)) W =
          Inr (map (\<lambda>n. f (X ! n) (W ! n)) [0..<N])"
    using assms by (intro store_each_fill) (simp_all add: lift2_def)
  then show ?thesis by (simp add: map2_nth assms)
qed

lemma store_three_self:
  assumes "length X = N" "length Y = N" "length W = N" "m = int N"
  shows "store_each m (\<lambda>i W. lift2 f (rd BufferOutOfBounds X i)
            (lift2 g (rd BufferOutOfBounds Y i) (rd BufferOutOfBounds W i))) W =
           Inr (map3 (\<lambda>x y w. f x (g y w)) X Y W)"
proof -
  have "store_each m (\<lambda>i W. lift2 f (rd BufferOutOfBounds X i)
            (lift2 g (rd BufferOutOfBounds Y i) (rd BufferOutOfBounds W i))) W =
          Inr (map (\<lambda>n. f (X ! n) (g (Y ! n) (W ! n))) [0..<N])"
    using assms by (intro store_each_fill) (simp_all add: lift2_def)
  then show ?thesis
    using map3_nth [of X N Y W "\<lambda>x y w. f x (g y w)"] assms by simp
qed

lemma store_three_other:
  assumes "length X = N" "length Y = N" "length Z = N" "length W = N" "m = int N"
  shows "store_each m (\<lambda>i W. lift2 f (rd BufferOutOfBounds X i)
            (lift2 g (rd BufferOutOfBounds Y i) (rd BufferOutOfBounds Z i))) W =
           Inr (map3 (\<lambda>x y z. f x (g y z)) X Y Z)"
proof -
  have "store_each m (\<lambda>i W. lift2 f (rd BufferOutOfBounds X i)
            (lift2 g (rd BufferOutOfBounds Y i) (rd BufferOutOfBounds Z i))) W =
          Inr (map (\<lambda>n. f (X ! n) (g (Y ! n) (Z ! n))) [0..<N])"
    using assms by (intro store_each_fill) (simp_all add: lift2_def)
  then show ?thesis
    using map3_nth [of X N Y Z "\<lambda>x y z. f x (g y z)"] assms by simp
qed

subsection \<open>The branches of the driver\<close>

lemma length_medians [simp]:
  "length (DetectorMedian src h (int A) (int D) (int S)) = A * D * S"
  "length (AngleMedian src h (int A) (int D) (int S)) = A * D * S"
  "length (ProjectionMedian src h (int A) (int D) (int S)) = A * D * S"
  by (simp_all add: DetectorMedian_def AngleMedian_def ProjectionMedian_def length_volume_of)

lemma length_medians_2D [simp]:
  "length (DetectorMedian src h (int A) (int D) 1) = A * D"
  "length (AngleMedian src h (int A) (int D) 1) = A * D"
  using length_medians(1) [of src h A D 1] length_medians(2) [of src h A D 1] by simp_all

lemma length_calloc [simp]:
  "length (calloc (int A * int D * int S)) = A * D * S"
  "length (calloc (int A * int D)) = A * D"
  by (simp_all add: calloc_def nat_mult_distrib)

lemma branch2D_detectors_ok:
  assumes "length residual = A * D" "length weights = A * D" "length weights_temp = A * D" "1 \<le> h"
  shows "branch2D_detectors residual h (2 * h + 1) (int A) (int D) (weights, weights_temp, t2) =
           Inr (map2 (-) residual (DetectorMedian residual h (int A) (int D) 1),
                DetectorMedian residual h (int A) (int D) 1, t2)"
  using assms
  by (simp add: branch2D_detectors_def det2D_pass store_sub_other [where N = "A * D"])

lemma branch2D_angles_detectors_ok:
  assumes "length residual = A * D" "length weights = A * D" "length weights_temp = A * D"
    "1 \<le> dh" "1 \<le> ah"
  shows "branch2D_angles_detectors residual dh (2 * dh + 1) ah (2 * ah + 1) (int A) (int D)
           (weights, weights_temp, t2) =
           Inr (map2 (-) (AngleMedian residual ah (int A) (int D) 1)
                         (DetectorMedian residual dh (int A) (int D) 1),
                AngleMedian residual ah (int A) (int D) 1, t2)"
  using assms
  by (simp add: branch2D_angles_detectors_def det2D_pass angles2D_pass
      store_sub_self [where N = "A * D"])

lemma branch_projections_ok:
  assumes "length residual = A * D * S" "length weights = A * D * S"
    "length weights_temp = A * D * S" "1 \<le> h"
  shows "branch_projections residual h (2 * h + 1) (int A) (int D) (int S)
           (weights, weights_temp, t2) =
           Inr (map2 (-) residual (ProjectionMedian residual h (int A) (int D) (int S)),
                ProjectionMedian residual h (int A) (int D) (int S), t2)"
  using assms
  by (simp add: branch_projections_def proj3D_pass store_sub_other [where N = "A * D * S"])

lemma branch_detectors_ok:
  assumes "length residual = A * D * S" "length weights = A * D * S"
    "length weights_temp = A * D * S" "1 \<le> h"
  shows "branch_detectors residual h (2 * h + 1) (int A) (int D) (int S)
           (weights, weights_temp, t2) =
           Inr (map2 (-) residual (DetectorMedian residual h (int A) (int D) (int S)),
                DetectorMedian residual h (int A) (int D) (int S), t2)"
  using assms
  by (simp add: branch_detectors_def det3D_pass store_sub_other [where N = "A * D * S"])

lemma branch_all_ok:
  assumes "length residual = A * D * S" "length weights = A * D * S"
    "length weights_temp = A * D * S" "length weights_temp2 = A * D * S"
    "1 \<le> dh" "1 \<le> ah" "1 \<le> ph"
  shows "branch_all residual dh (2 * dh + 1) ah (2 * ah + 1) ph (2 * ph + 1) (int A) (int D) (int S)
           (weights, weights_temp, weights_temp2) =
           Inr (map3 (\<lambda>a p d. a - 0.5 * (p + d))
                  (AngleMedian residual ah (int A) (int D) (int S))
                  (ProjectionMedian residual ph (int A) (int D) (int S))
                  (DetectorMedian residual dh (int A) (int D) (int S)),
                AngleMedian residual ah (int A) (int D) (int S),
                ProjectionMedian residual ph (int A) (int D) (int S))"
  using assms
  by (simp add: branch_all_def det3D_pass angles3D_pass proj3D_pass
      store_three_self [where N = "A * D * S"])

subsection \<open>The driver on a well-formed volume\<close>

lemma nonempty_first:
  "0 < length w \<Longrightarrow> bind_r (rd BufferOutOfBounds w 0) (\<lambda>r. Inr (w, r)) = Inr (w, w ! 0)"
  by (simp add: rd_def)

lemma volume_dims:
  assumes "0 < anglesDim" "0 < detectorsDim" "0 < slices"
  obtains A D S where "anglesDim = int A" "detectorsDim = int D" "slices = int S"
    "0 < A" "0 < D" "0 < S" "nat (anglesDim * detectorsDim * slices) = A * D * S"
proof -
  from assms obtain A D S where e: "anglesDim = int A" "detectorsDim = int D" "slices = int S"
    and p: "0 < A" "0 < D" "0 < S"
    by (metis zero_less_imp_eq_int)
  have "nat (anglesDim * detectorsDim * slices) = A * D * S"
    unfolding e by (simp add: nat_mult_distrib)
  with e p show ?thesis using that by blast
qed

lemma main_2D:
  assumes "0 < anglesDim" "0 < detectorsDim"
    and "length residual = nat (anglesDim * detectorsDim)"
    and "length weights = nat (anglesDim * detectorsDim)"
    and "1 \<le> detectorHalf" "0 \<le> angleHalf"
  shows "RingWeights_main residual weights detectorHalf angleHalf projectionHalf
           anglesDim detectorsDim 1 =
         (let w = (if angleHalf = 0
                   then map2 (-) residual (DetectorMedian residual detectorHalf anglesDim detectorsDim 1)
                   else map2 (-) (AngleMedian residual angleHalf anglesDim detectorsDim 1)
                                 (DetectorMedian residual detectorHalf anglesDim detectorsDim 1))
          in Inr (w, w ! 0))"
proof -
  from assms(1,2) obtain A D S where d: "anglesDim = int A" "detectorsDim = int D" "(1::int) = int S"
    "0 < A" "0 < D" "nat (anglesDim * detectorsDim * 1) = A * D * S"
    using volume_dims [of anglesDim detectorsDim 1] by (metis zero_less_one)
  have S: "S = 1" using d(3) by simp
  have l: "length residual = A * D" "length weights = A * D"
    using assms(3,4) d(6) S by simp_all
  have pos: "0 < A * D" using d(4,5) by simp
  show ?thesis
  proof (cases "angleHalf = 0")
    case True
    then show ?thesis
      unfolding d(1,2) using l pos assms(5)
      by (simp add: RingWeights_main_def Let_def branch2D_detectors_ok nonempty_first)
  next
    case False
    then have "1 \<le> angleHalf" using assms(6) by simp
    then show ?thesis
      unfolding d(1,2) using l pos assms(5) False
      by (simp add: RingWeights_main_def Let_def branch2D_angles_detectors_ok nonempty_first)
  qed
qed

lemma main_3D_all:
  assumes "1 < slices" "0 < anglesDim" "0 < detectorsDim"
    and "length residual = nat (anglesDim * detectorsDim * slices)"
    and "length weights = nat (anglesDim * detectorsDim * slices)"
    and "0 \<le> angleHalf" "0 \<le> projectionHalf" "0 \<le> detectorHalf"
    and "angleHalf \<noteq> 0" "projectionHalf \<noteq> 0" "detectorHalf \<noteq> 0"
  shows "RingWeights_main residual weights detectorHalf angleHalf projectionHalf
           anglesDim detectorsDim slices =
         (let w = map3 (\<lambda>a p d. a - 0.5 * (p + d))
                    (AngleMedian residual angleHalf anglesDim detectorsDim slices)
                    (ProjectionMedian residual projectionHalf anglesDim detectorsDim slices)
                    (DetectorMedian residual detectorHalf anglesDim detectorsDim slices)
          in Inr (w, w ! 0))"
proof -
  from assms(1-3) obtain A D S where d: "anglesDim = int A" "detectorsDim = int D" "slices = int S"
    "0 < A" "0 < D" "0 < S" "nat (anglesDim * detectorsDim * slices) = A * D * S"
    using volume_dims [of anglesDim detectorsDim slices] by (metis less_trans zero_less_one)
  have S: "int S \<noteq> 1" using assms(1) d(3) by simp
  have l: "length residual = A * D * S" "length weights = A * D * S"
    using assms(4,5) d(7) by simp_all
  have pos: "0 < A * D * S" using d(4-6) by simp
  have h: "1 \<le> angleHalf" "1 \<le> projectionHalf" "1 \<le> detectorHalf"
    using assms(6-11) by simp_all
  have lw: "0 < length (map3 f (AngleMedian residual angleHalf (int A) (int D) (int S))
                    (ProjectionMedian residual projectionHalf (int A) (int D) (int S))
                    (DetectorMedian residual detectorHalf (int A) (int D) (int S)))" for f
    using pos by (simp add: map3_def)
  show ?thesis
    unfolding d(1-3) using l S assms(9-11) h
    by (simp add: RingWeights_main_def Let_def when_r_def branch_all_ok nonempty_first [OF lw])
qed

lemma main_3D_single_axis:
  assumes "1 < slices" "0 < anglesDim" "0 < detectorsDim"
    and "length residual = nat (anglesDim * detectorsDim * slices)"
    and "length weights = nat (anglesDim * detectorsDim * slices)"
  shows "(1 \<le> projectionHalf \<longrightarrow>
            RingWeights_main residual weights 0 0 projectionHalf anglesDim detectorsDim slices =
            (let w = map2 (-) residual
                       (ProjectionMedian residual projectionHalf anglesDim detectorsDim slices)
             in Inr (w, w ! 0)))
       \<and> (1 \<le> detectorHalf \<longrightarrow>
            RingWeights_main residual weights detectorHalf 0 0 anglesDim detectorsDim slices =
            (let w = map2 (-) residual
                       (DetectorMedian residual detectorHalf anglesDim detectorsDim slices)
             in Inr (w, w ! 0)))"
proof -
  from assms(1-3) obtain A D S where d: "anglesDim = int A" "detectorsDim = int D" "slices = int S"
    "0 < A" "0 < D" "0 < S" "nat (anglesDim * detectorsDim * slices) = A * D * S"
    using volume_dims [of anglesDim detectorsDim slices] by (metis less_trans zero_less_one)
  have S: "int S \<noteq> 1" using assms(1) d(3) by simp
  have l: "length residual = A * D * S" "length weights = A * D * S"
    using assms(4,5) d(7) by simp_all
  have pos: "0 < A * D * S" using d(4-6) by simp
  show ?thesis
    unfolding d(1-3) using l S pos
    by (simp add: RingWeights_main_def Let_def when_r_def branch_projections_ok
        branch_detectors_ok nonempty_first)
qed

subsection \<open>A filter called with half-size zero\<close>

lemma for_upto_first_fault:
  assumes "0 < N" "body 0 s = Inl e"
  shows "for_upto N body s = Inl e"
proof -
  have "[0..N - 1] = 0 # [1..N - 1]" using assms(1) by (simp add: upto_rec1)
  then show ?thesis by (simp add: for_upto_def assms(2))
qed

lemma loop2D_first_fault:
  assumes "0 < anglesDim" "0 < detectorsDim" "cell 0 0 dst = Inl e"
  shows "loop2D anglesDim detectorsDim cell dst = Inl e"
  unfolding loop2D_def using assms by (intro for_upto_first_fault) simp_all

lemma loop3D_first_fault:
  assumes "0 < slices" "0 < anglesDim" "0 < detectorsDim" "cell 0 0 0 dst = Inl e"
  shows "loop3D slices anglesDim detectorsDim cell dst = Inl e"
  unfolding loop3D_def using assms by (intro for_upto_first_fault) simp_all

lemma det2D_pass_zero:
  assumes "0 < A" "0 < D" "length W = A * D" "length residual = A * D"
  shows "loop2D (int A) (int D)
           (\<lambda>j i W. RingWeights_det2D residual W 0 1 (int A) (int D) j i) W =
         Inl WindowOutOfBounds"
proof (rule loop2D_first_fault)
  show "RingWeights_det2D residual W 0 1 (int A) (int D) 0 0 = Inl WindowOutOfBounds"
    using det2D_cell [of 0 D 0 A W residual 0] assms by simp
qed (use assms in simp_all)

lemma proj3D_pass_zero:
  assumes "0 < A" "0 < D" "0 < S" "length W = A * D * S" "length residual = A * D * S"
  shows "loop3D (int S) (int A) (int D)
           (\<lambda>j i k W. RingWeights_proj3D residual W 0 1 (int A) (int D) (int S) j i k) W =
         Inl WindowOutOfBounds"
proof (rule loop3D_first_fault)
  show "RingWeights_proj3D residual W 0 1 (int A) (int D) (int S) 0 0 0 = Inl WindowOutOfBounds"
    using proj3D_cell [of 0 D 0 A 0 S W residual 0] assms by simp
qed (use assms in simp_all)

lemma main_2D_zero_detector:
  assumes "0 < anglesDim" "0 < detectorsDim"
    and "length residual = nat (anglesDim * detectorsDim)"
    and "length weights = nat (anglesDim * detectorsDim)"
    and "0 \<le> angleHalf"
  shows "RingWeights_main residual weights 0 angleHalf projectionHalf anglesDim detectorsDim 1 =
           Inl WindowOutOfBounds"
proof -
  from assms(1,2) obtain A D S where d: "anglesDim = int A" "detectorsDim = int D" "(1::int) = int S"
    "0 < A" "0 < D" "nat (anglesDim * detectorsDim * 1) = A * D * S"
    using volume_dims [of anglesDim detectorsDim 1] by (metis zero_less_one)
  have S: "S = 1" using d(3) by simp
  have l: "length residual = A * D" "length weights = A * D"
    using assms(3,4) d(6) S by simp_all
  show ?thesis
  proof (cases "angleHalf = 0")
    case True
    then show ?thesis
      unfolding d(1,2) using l d(4,5)
      by (simp add: RingWeights_main_def Let_def branch2D_detectors_def det2D_pass_zero)
  next
    case False
    then have "1 \<le> angleHalf" using assms(5) by simp
    then show ?thesis
      unfolding d(1,2) using l d(4,5) False
      by (simp add: RingWeights_main_def Let_def branch2D_angles_detectors_def angles2D_pass
          det2D_pass_zero)
  qed
qed

lemma main_3D_all_zero:
  assumes "1 < slices" "0 < anglesDim" "0 < detectorsDim"
    and "length residual = nat (anglesDim * detectorsDim * slices)"
    and "length weights = nat (anglesDim * detectorsDim * slices)"
  shows "RingWeights_main residual weights 0 0 0 anglesDim detectorsDim slices =
           Inl WindowOutOfBounds"
proof -
  from assms(1-3) obtain A D S where d: "anglesDim = int A" "detectorsDim = int D" "slices = int S"
    "0 < A" "0 < D" "0 < S" "nat (anglesDim * detectorsDim * slices) = A * D * S"
    using volume_dims [of anglesDim detectorsDim slices] by (metis less_trans zero_less_one)
  have S: "int S \<noteq> 1" using assms(1) d(3) by simp
  have l: "length residual = A * D * S" "length weights = A * D * S"
    using assms(4,5) d(7) by simp_all
  show ?thesis
    unfolding d(1-3) using l S d(4-6)
    by (simp add: RingWeights_main_def Let_def when_r_def branch_projections_def proj3D_pass_zero)
qed

subsection \<open>Accesses to the window block\<close>

lemma gather_list_fault:
  "for_list ks (gather_step sample) (V, int c) = Inl e \<Longrightarrow> c + length ks \<le> length V \<Longrightarrow>
     \<exists>k \<in> set ks. sample k = Inl e"
proof (induction ks arbitrary: V c)
  case Nil
  then show ?case by simp
next
  case (Cons k ks)
  show ?case
  proof (cases "sample k")
    case (Inl e')
    then show ?thesis using Cons.prems(1) by (simp add: gather_step_pair)
  next
    case (Inr v)
    have c: "c < length V" using Cons.prems(2) by simp
    have "for_list ks (gather_step sample) (V[c := v], int (Suc c)) = Inl e"
      using Cons.prems(1) Inr c by (simp add: gather_step_pair add.commute)
    from Cons.IH [OF this] Cons.prems(2) show ?thesis by auto
  qed
qed

lemma window_median_no_window_fault:
  assumes "1 \<le> h" "\<forall>t. sample t \<noteq> Inl WindowOutOfBounds"
  shows "window_median h (2 * h + 1) sample \<noteq> Inl WindowOutOfBounds"
proof (cases "gather sample h (calloc (2 * h + 1))")
  case (Inl e)
  then have "for_list [- h..h] (gather_step sample) (calloc (2 * h + 1), int 0) = Inl e"
    by (simp add: gather_def for_range_def)
  moreover have "0 + length [- h..h] \<le> length (calloc (2 * h + 1))"
    using assms(1) by (simp add: calloc_def)
  ultimately obtain k where "sample k = Inl e" using gather_list_fault by blast
  then have "e \<noteq> WindowOutOfBounds" using assms(2) by metis
  then show ?thesis using Inl by (simp add: window_median_def Let_def)
next
  case (Inr p)
  obtain V counter where p: "p = (V, counter)" by (cases p)
  have "0 \<le> h" using assms(1) by simp
  from window_median_gathered [OF this Inr [unfolded p]] assms(1) show ?thesis by simp
qed

lemma filter_no_window_fault:
  assumes "1 \<le> h" "\<forall>t. sample t \<noteq> Inl WindowOutOfBounds"
  shows "bind_r (window_median h (2 * h + 1) sample) (wr BufferOutOfBounds W index) \<noteq>
           Inl WindowOutOfBounds"
proof (cases "window_median h (2 * h + 1) sample")
  case (Inl e)
  then show ?thesis using window_median_no_window_fault [OF assms] by simp
next
  case (Inr v)
  then show ?thesis by (simp add: wr_def)
qed

lemma samples_no_window_fault:
  "det2D_sample residual D j i t \<noteq> Inl WindowOutOfBounds"
  "angles2D_sample residual A D j i t \<noteq> Inl WindowOutOfBounds"
  "proj3D_sample residual A D S j i k t \<noteq> Inl WindowOutOfBounds"
  "det3D_sample residual A D j i k t \<noteq> Inl WindowOutOfBounds"
  "angles3D_sample residual A D j i k t \<noteq> Inl WindowOutOfBounds"
  by (simp_all add: det2D_sample_def angles2D_sample_def proj3D_sample_def det3D_sample_def
      angles3D_sample_def Let_def rd_def)

lemma filters_no_window_fault:
  assumes "1 \<le> h"
  shows "RingWeights_det2D residual W h (2 * h + 1) A D j i \<noteq> Inl WindowOutOfBounds"
    "RingWeights_angles2D residual W h (2 * h + 1) A D j i \<noteq> Inl WindowOutOfBounds"
    "RingWeights_proj3D residual W h (2 * h + 1) A D S j i k \<noteq> Inl WindowOutOfBounds"
    "RingWeights_det3D residual W h (2 * h + 1) A D S j i k \<noteq> Inl WindowOutOfBounds"
    "RingWeights_angles3D residual W h (2 * h + 1) A D S j i k \<noteq> Inl WindowOutOfBounds"
  unfolding RingWeights_det2D_def RingWeights_angles2D_def RingWeights_proj3D_def
    RingWeights_det3D_def RingWeights_angles3D_def Let_def
  by (intro filter_no_window_fault assms allI samples_no_window_fault)+

lemma coords_nat:
  assumes "0 \<le> j" "j < detectorsDim" "0 \<le> i" "i < anglesDim" "0 \<le> k" "k < slices"
  obtains A D S i' j' k' where "anglesDim = int A" "detectorsDim = int D" "slices = int S"
    "i = int i'" "j = int j'" "k = int k'" "i' < A" "j' < D" "k' < S"
    "nat (anglesDim * detectorsDim * slices) = A * D * S"
proof -
  have "0 < anglesDim" "0 < detectorsDim" "0 < slices" using assms by simp_all
  then obtain A D S where d: "anglesDim = int A" "detectorsDim = int D" "slices = int S"
    "nat (anglesDim * detectorsDim * slices) = A * D * S"
    using volume_dims by metis
  have "i = int (nat i)" "j = int (nat j)" "k = int (nat k)" "nat i < A" "nat j < D" "nat k < S"
    using assms d(1-3) by simp_all
  with d show ?thesis using that by blast
qed

lemma filters_3D_zero:
  assumes "0 \<le> j" "j < detectorsDim" "0 \<le> i" "i < anglesDim" "0 \<le> k" "k < slices"
    and "length src = nat (anglesDim * detectorsDim * slices)"
    and "length dst = nat (anglesDim * detectorsDim * slices)"
  shows "RingWeights_proj3D src dst 0 1 anglesDim detectorsDim slices j i k = Inl WindowOutOfBounds"
    "RingWeights_det3D src dst 0 1 anglesDim detectorsDim slices j i k = Inl WindowOutOfBounds"
    "RingWeights_angles3D src dst 0 1 anglesDim detectorsDim slices j i k = Inl WindowOutOfBounds"
proof -
  from assms(1-6) obtain A D S i' j' k' where d: "anglesDim = int A" "detectorsDim = int D"
    "slices = int S" "i = int i'" "j = int j'" "k = int k'" "i' < A" "j' < D" "k' < S"
    "nat (anglesDim * detectorsDim * slices) = A * D * S"
    by (rule coords_nat)
  have l: "length src = A * D * S" "length dst = A * D * S" using assms(7,8) d(10) by simp_all
  show "RingWeights_proj3D src dst 0 1 anglesDim detectorsDim slices j i k = Inl WindowOutOfBounds"
    unfolding d(1-6) using proj3D_cell [OF d(8,7,9) l(2,1), of 0] by simp
  show "RingWeights_det3D src dst 0 1 anglesDim detectorsDim slices j i k = Inl WindowOutOfBounds"
    unfolding d(1-6) using det3D_cell [OF d(8,7,9) l(2,1), of 0] by simp
  show "RingWeights_angles3D src dst 0 1 anglesDim detectorsDim slices j i k = Inl WindowOutOfBounds"
    unfolding d(1-6) using angles3D_cell [OF d(8,7,9) l(2,1), of 0] by simp
qed

lemma filters_2D_zero:
  assumes "0 \<le> j" "j < detectorsDim" "0 \<le> i" "i < anglesDim"
    and "length src = nat (anglesDim * detectorsDim)"
    and "length dst = nat (anglesDim * detectorsDim)"
  shows "RingWeights_det2D src dst 0 1 anglesDim detectorsDim j i = Inl WindowOutOfBounds"
    "RingWeights_angles2D src dst 0 1 anglesDim detectorsDim j i = Inl WindowOutOfBounds"
proof -
  from assms(1-4) obtain A D S i' j' k' where d: "anglesDim = int A" "detectorsDim = int D"
    "(1::int) = int S" "i = int i'" "j = int j'" "(0::int) = int k'" "i' < A" "j' < D" "k' < S"
    "nat (anglesDim * detectorsDim * 1) = A * D * S"
    using coords_nat [of j detectorsDim i anglesDim 0 1] by (metis order_refl zero_less_one)
  have "S = 1" using d(3) by simp
  then have l: "length src = A * D" "length dst = A * D" using assms(5,6) d(10) by simp_all
  show "RingWeights_det2D src dst 0 1 anglesDim detectorsDim j i = Inl WindowOutOfBounds"
    unfolding d(1,2,4,5) using det2D_cell [OF d(8,7) l(2,1), of 0] by simp
  show "RingWeights_angles2D src dst 0 1 anglesDim detectorsDim j i = Inl WindowOutOfBounds"
    unfolding d(1,2,4,5) using angles2D_cell [OF d(8,7) l(2,1), of 0] by simp
qed

subsection \<open>Evaluation on concrete volumes\<close>

lemmas spec_eval = DetectorMedian_def AngleMedian_def ProjectionMedian_def volume_of_def
  detector_window_def angle_window_def projection_window_def order_statistic_def cell_at_def
  flat_index_def map3_def upto.simps

lemmas gather_eval = gather_def for_range_def gather_step_def calloc_def rd_def wr_def
  det2D_sample_def angles2D_sample_def proj3D_sample_def det3D_sample_def angles3D_sample_def
  Let_def upto.simps eval_nat_numeral

subsection \<open>Constant volumes\<close>

text \<open>
  On a constant residual every median is the same constant, so each branch of the shape
  \<open>x - median x\<close> and the three-way branch give zero weights, provided every filter that
  runs has a half-size of at least 1.
\<close>

lemma volume_of_const:
  assumes "\<And>a d s. 0 \<le> a \<Longrightarrow> a < int A \<Longrightarrow> 0 \<le> d \<Longrightarrow> d < int D \<Longrightarrow> 0 \<le> s \<Longrightarrow> s < int S \<Longrightarrow>
             f a d s = c"
  shows "volume_of (int A) (int D) (int S) f = replicate (A * D * S) c"
proof -
  have "\<forall>y \<in> set (volume_of (int A) (int D) (int S) f). y = c"
    using assms by (auto simp: volume_of_def)
  then have "replicate (length (volume_of (int A) (int D) (int S) f)) c =
               volume_of (int A) (int D) (int S) f"
    by (rule replicate_length_same)
  then show ?thesis by (simp add: length_volume_of)
qed

lemma cell_at_const:
  assumes "a < A" "d < D" "s < S"
  shows "cell_at (replicate (A * D * S) c) (int A) (int D) (int a) (int d) (int s) = c"
proof -
  have "D * A * s + a * D + d < A * D * S" using cell_bound [OF assms(2,1,3)] .
  then show ?thesis by (simp only: cell_at_def flat_index_nat nat_int nth_replicate)
qed

lemma cell_at_const_int:
  assumes "0 \<le> a" "a < int A" "0 \<le> d" "d < int D" "0 \<le> s" "s < int S"
  shows "cell_at (replicate (A * D * S) c) (int A) (int D) a d s = c"
proof -
  have "a = int (nat a)" "d = int (nat d)" "s = int (nat s)" "nat a < A" "nat d < D" "nat s < S"
    using assms by simp_all
  then show ?thesis using cell_at_const [of "nat a" A "nat d" D "nat s" S c] by simp
qed

lemma order_statistic_const:
  assumes "1 \<le> h" "length w = nat (2 * h + 1)" "\<forall>x \<in> set w. x = c"
  shows "order_statistic h w = c"
proof -
  have "nat (h - 1) < length (sort w)" using assms(1,2) by simp
  then have "sort w ! nat (h - 1) \<in> set (sort w)" by (rule nth_mem)
  then show ?thesis using assms(3) by (simp add: order_statistic_def)
qed

lemma medians_const:
  assumes "1 \<le> h"
  shows "DetectorMedian (replicate (A * D * S) c) h (int A) (int D) (int S) = replicate (A * D * S) c"
    "AngleMedian (replicate (A * D * S) c) h (int A) (int D) (int S) = replicate (A * D * S) c"
    "ProjectionMedian (replicate (A * D * S) c) h (int A) (int D) (int S) = replicate (A * D * S) c"
proof -
  have h0: "0 \<le> h" using assms by simp
  show "DetectorMedian (replicate (A * D * S) c) h (int A) (int D) (int S) = replicate (A * D * S) c"
    unfolding DetectorMedian_def
  proof (rule volume_of_const)
    fix a d s assume r: "0 \<le> a" "a < int A" "0 \<le> d" "d < int D" "0 \<le> s" "s < int S"
    show "order_statistic h (detector_window (replicate (A * D * S) c) h (int A) (int D) a d s) = c"
      using assms h0 r
      by (intro order_statistic_const) (auto simp: detector_window_def cell_at_const_int)
  qed
  show "AngleMedian (replicate (A * D * S) c) h (int A) (int D) (int S) = replicate (A * D * S) c"
    unfolding AngleMedian_def
  proof (rule volume_of_const)
    fix a d s assume r: "0 \<le> a" "a < int A" "0 \<le> d" "d < int D" "0 \<le> s" "s < int S"
    show "order_statistic h (angle_window (replicate (A * D * S) c) h (int A) (int D) a d s) = c"
      using assms h0 r
      by (intro order_statistic_const) (auto simp: angle_window_def cell_at_const_int)
  qed
  show "ProjectionMedian (replicate (A * D * S) c) h (int A) (int D) (int S) = replicate (A * D * S) c"
    unfolding ProjectionMedian_def
  proof (rule volume_of_const)
    fix a d s assume r: "0 \<le> a" "a < int A" "0 \<le> d" "d < int D" "0 \<le> s" "s < int S"
    show "order_statistic h (projection_window (replicate (A * D * S) c) h (int A) (int D) (int S) a d s) = c"
      using assms h0 r
      by (intro order_statistic_const) (auto simp: projection_window_def cell_at_const_int)
  qed
qed

lemma constant_volume_zero_weights:
  assumes "0 < anglesDim" "0 < detectorsDim" "0 < slices"
    and "residual = replicate (nat (anglesDim * detectorsDim * slices)) c"
    and "length weights = nat (anglesDim * detectorsDim * slices)"
  shows "slices = 1 \<Longrightarrow> 1 \<le> detectorHalf \<Longrightarrow> 0 \<le> angleHalf \<Longrightarrow>
           RingWeights_main residual weights detectorHalf angleHalf projectionHalf
             anglesDim detectorsDim slices =
           Inr (replicate (nat (anglesDim * detectorsDim * slices)) 0, 0)"
    and "1 < slices \<Longrightarrow> 1 \<le> projectionHalf \<Longrightarrow>
           RingWeights_main residual weights 0 0 projectionHalf anglesDim detectorsDim slices =
           Inr (replicate (nat (anglesDim * detectorsDim * slices)) 0, 0)"
    and "1 < slices \<Longrightarrow> 1 \<le> detectorHalf \<Longrightarrow>
           RingWeights_main residual weights detectorHalf 0 0 anglesDim detectorsDim slices =
           Inr (replicate (nat (anglesDim * detectorsDim * slices)) 0, 0)"
    and "1 < slices \<Longrightarrow> 1 \<le> detectorHalf \<Longrightarrow> 1 \<le> angleHalf \<Longrightarrow> 1 \<le> projectionHalf \<Longrightarrow>
           RingWeights_main residual weights detectorHalf angleHalf projectionHalf
             anglesDim detectorsDim slices =
           Inr (replicate (nat (anglesDim * detectorsDim * slices)) 0, 0)"
proof -
  from assms(1-3) obtain A D S where d: "anglesDim = int A" "detectorsDim = int D" "slices = int S"
    "0 < A" "0 < D" "0 < S" "nat (anglesDim * detectorsDim * slices) = A * D * S"
    by (rule volume_dims)
  have r: "residual = replicate (A * D * S) c" using assms(4) d(7) by simp
  have l: "length residual = nat (anglesDim * detectorsDim * slices)" using assms(4) by simp
  have pos: "0 < A * D * S" using d(4-6) by simp
  have n: "nat (int A * int D * int S) = A * D * S" "nat (int A * int D) = A * D"
    by (simp_all add: nat_mult_distrib)
  have z: "replicate (A * D * S) (0::real) ! 0 = 0" using pos by simp
  {
    assume s1: "slices = 1" and h: "1 \<le> detectorHalf" "0 \<le> angleHalf"
    have S: "S = 1" using s1 d(3) by simp
    have "RingWeights_main residual weights detectorHalf angleHalf projectionHalf
             anglesDim detectorsDim 1 =
           Inr (replicate (nat (anglesDim * detectorsDim * slices)) 0, 0)"
      using main_2D [OF assms(1,2) _ _ h, of residual weights projectionHalf] l assms(5) s1
        medians_const [of detectorHalf A D 1 c] medians_const [of angleHalf A D 1 c] h z
      unfolding d(1,2) r d(7) S by (cases "angleHalf = 0") (simp_all add: Let_def n)
    then show "RingWeights_main residual weights detectorHalf angleHalf projectionHalf
             anglesDim detectorsDim slices =
           Inr (replicate (nat (anglesDim * detectorsDim * slices)) 0, 0)"
      using s1 by simp
  }
  {
    assume s: "1 < slices" and h: "1 \<le> projectionHalf"
    show "RingWeights_main residual weights 0 0 projectionHalf anglesDim detectorsDim slices =
           Inr (replicate (nat (anglesDim * detectorsDim * slices)) 0, 0)"
      using main_3D_single_axis [OF s assms(1,2) l assms(5), of projectionHalf 1] h
        medians_const [of projectionHalf A D S c] z
      unfolding d(1-3) r d(7) by (simp add: Let_def n)
  }
  {
    assume s: "1 < slices" and h: "1 \<le> detectorHalf"
    show "RingWeights_main residual weights detectorHalf 0 0 anglesDim detectorsDim slices =
           Inr (replicate (nat (anglesDim * detectorsDim * slices)) 0, 0)"
      using main_3D_single_axis [OF s assms(1,2) l assms(5), of 1 detectorHalf] h
        medians_const [of detectorHalf A D S c] z
      unfolding d(1-3) r d(7) by (simp add: Let_def n)
  }
  {
    assume s: "1 < slices" and h: "1 \<le> detectorHalf" "1 \<le> angleHalf" "1 \<le> projectionHalf"
    show "RingWeights_main residual weights detectorHalf angleHalf projectionHalf
             anglesDim detectorsDim slices =
           Inr (replicate (nat (anglesDim * detectorsDim * slices)) 0, 0)"
      using main_3D_all [OF s assms(1,2) l assms(5), of angleHalf projectionHalf detectorHalf] h
        medians_const [of detectorHalf A D S c] medians_const [of angleHalf A D S c]
        medians_const [of projectionHalf A D S c] z
      unfolding d(1-3) r d(7) by (simp add: Let_def map3_def n)
  }
qed

subsection \<open>The filters on a pixel of a well-formed volume\<close>

lemma window_nth:
  assumes "- h \<le> t" "t \<le> h"
  shows "map f [- h..h] ! nat (t + h) = f t"
proof -
  have "[- h..h] ! nat (t + h) = - h + int (nat (t + h))"
    using assms by (intro nth_upto) auto
  then show ?thesis using assms by (simp add: nth_map)
qed

lemma cell_at_index:
  "cell_at src A D a d s = src ! nat (D * A * s + a * D + d)"
  by (simp add: cell_at_def flat_index_def mult_ac)

lemma filters_3D_on_volume:
  assumes "0 \<le> j" "j < detectorsDim" "0 \<le> i" "i < anglesDim" "0 \<le> k" "k < slices"
    and "length residual = nat (anglesDim * detectorsDim * slices)"
    and "length W = nat (anglesDim * detectorsDim * slices)"
    and "0 \<le> h"
  shows "gather (proj3D_sample residual anglesDim detectorsDim slices j i k) h (calloc (2 * h + 1)) =
           Inr (projection_window residual h anglesDim detectorsDim slices i j k, 2 * h + 1)"
    and "RingWeights_proj3D residual W h (2 * h + 1) anglesDim detectorsDim slices j i k =
           (if h = 0 then Inl WindowOutOfBounds
            else Inr (W[nat (detectorsDim * anglesDim * k + i * detectorsDim + j) :=
              sort (projection_window residual h anglesDim detectorsDim slices i j k) ! nat (h - 1)]))"
    and "gather (det3D_sample residual anglesDim detectorsDim j i k) h (calloc (2 * h + 1)) =
           Inr (detector_window residual h anglesDim detectorsDim i j k, 2 * h + 1)"
    and "RingWeights_det3D residual W h (2 * h + 1) anglesDim detectorsDim slices j i k =
           (if h = 0 then Inl WindowOutOfBounds
            else Inr (W[nat (detectorsDim * anglesDim * k + i * detectorsDim + j) :=
              sort (detector_window residual h anglesDim detectorsDim i j k) ! nat (h - 1)]))"
    and "gather (angles3D_sample residual anglesDim detectorsDim j i k) h (calloc (2 * h + 1)) =
           Inr (angle_window residual h anglesDim detectorsDim i j k, 2 * h + 1)"
    and "RingWeights_angles3D residual W h (2 * h + 1) anglesDim detectorsDim slices j i k =
           (if h = 0 then Inl WindowOutOfBounds
            else Inr (W[nat (detectorsDim * anglesDim * k + i * detectorsDim + j) :=
              sort (angle_window residual h anglesDim detectorsDim i j k) ! nat (h - 1)]))"
proof -
  from assms(1-6) obtain A D S i' j' k' where d: "anglesDim = int A" "detectorsDim = int D"
    "slices = int S" "i = int i'" "j = int j'" "k = int k'" "i' < A" "j' < D" "k' < S"
    "nat (anglesDim * detectorsDim * slices) = A * D * S"
    by (rule coords_nat)
  have l: "length residual = A * D * S" "length W = A * D * S" using assms(7,8) d(10) by simp_all
  have n: "nat (int D * int A * int k' + int i' * int D + int j') = D * A * k' + i' * D + j'"
    by (simp add: nat_add_distrib nat_mult_distrib)
  show "gather (proj3D_sample residual anglesDim detectorsDim slices j i k) h (calloc (2 * h + 1)) =
           Inr (projection_window residual h anglesDim detectorsDim slices i j k, 2 * h + 1)"
    unfolding d(1-6) projection_window_def
    by (rule gather_ok [OF assms(9)]) (simp add: proj3D_sample_ok [OF d(8,7,9) l(1)])
  show "gather (det3D_sample residual anglesDim detectorsDim j i k) h (calloc (2 * h + 1)) =
           Inr (detector_window residual h anglesDim detectorsDim i j k, 2 * h + 1)"
    unfolding d(1-6) detector_window_def
    by (rule gather_ok [OF assms(9)]) (simp add: det3D_sample_ok [OF d(8,7,9) l(1)])
  show "gather (angles3D_sample residual anglesDim detectorsDim j i k) h (calloc (2 * h + 1)) =
           Inr (angle_window residual h anglesDim detectorsDim i j k, 2 * h + 1)"
    unfolding d(1-6) angle_window_def
    by (rule gather_ok [OF assms(9)]) (simp add: angles3D_sample_ok [OF d(8,7,9) l(1)])
  show "RingWeights_proj3D residual W h (2 * h + 1) anglesDim detectorsDim slices j i k =
           (if h = 0 then Inl WindowOutOfBounds
            else Inr (W[nat (detectorsDim * anglesDim * k + i * detectorsDim + j) :=
              sort (projection_window residual h anglesDim detectorsDim slices i j k) ! nat (h - 1)]))"
    unfolding d(1-6) n
    using proj3D_cell [OF d(8,7,9) l(2,1) assms(9)] by (simp only: order_statistic_def)
  show "RingWeights_det3D residual W h (2 * h + 1) anglesDim detectorsDim slices j i k =
           (if h = 0 then Inl WindowOutOfBounds
            else Inr (W[nat (detectorsDim * anglesDim * k + i * detectorsDim + j) :=
              sort (detector_window residual h anglesDim detectorsDim i j k) ! nat (h - 1)]))"
    unfolding d(1-6) n
    using det3D_cell [OF d(8,7,9) l(2,1) assms(9)] by (simp only: order_statistic_def)
  show "RingWeights_angles3D residual W h (2 * h + 1) anglesDim detectorsDim slices j i k =
           (if h = 0 then Inl WindowOutOfBounds
            else Inr (W[nat (detectorsDim * anglesDim * k + i * detectorsDim + j) :=
              sort (angle_window residual h anglesDim detectorsDim i j k) ! nat (h - 1)]))"
    unfolding d(1-6) n
    using angles3D_cell [OF d(8,7,9) l(2,1) assms(9)] by (simp only: order_statistic_def)
qed

lemma filters_2D_on_volume:
  assumes "0 \<le> j" "j < detectorsDim" "0 \<le> i" "i < anglesDim"
    and "length residual = nat (anglesDim * detectorsDim)"
    and "length W = nat (anglesDim * detectorsDim)"
    and "0 \<le> h"
  shows "gather (det2D_sample residual detectorsDim j i) h (calloc (2 * h + 1)) =
           Inr (detector_window residual h anglesDim detectorsDim i j 0, 2 * h + 1)"
    and "RingWeights_det2D residual W h (2 * h + 1) anglesDim detectorsDim j i =
           (if h = 0 then Inl WindowOutOfBounds
            else Inr (W[nat (i * detectorsDim + j) :=
              sort (detector_window residual h anglesDim detectorsDim i j 0) ! nat (h - 1)]))"
    and "gather (angles2D_sample residual anglesDim detectorsDim j i) h (calloc (2 * h + 1)) =
           Inr (angle_window residual h anglesDim detectorsDim i j 0, 2 * h + 1)"
    and "RingWeights_angles2D residual W h (2 * h + 1) anglesDim detectorsDim j i =
           (if h = 0 then Inl WindowOutOfBounds
            else Inr (W[nat (i * detectorsDim + j) :=
              sort (angle_window residual h anglesDim detectorsDim i j 0) ! nat (h - 1)]))"
proof -
  from assms(1-4) obtain A D S i' j' k' where d: "anglesDim = int A" "detectorsDim = int D"
    "(1::int) = int S" "i = int i'" "j = int j'" "(0::int) = int k'" "i' < A" "j' < D" "k' < S"
    "nat (anglesDim * detectorsDim * 1) = A * D * S"
    using coords_nat [of j detectorsDim i anglesDim 0 1] by (metis order_refl zero_less_one)
  have "S = 1" using d(3) by simp
  then have l: "length residual = A * D" "length W = A * D" using assms(5,6) d(10) by simp_all
  have n: "nat (int i' * int D + int j') = i' * D + j'"
    by (simp add: nat_add_distrib nat_mult_distrib)
  show "gather (det2D_sample residual detectorsDim j i) h (calloc (2 * h + 1)) =
           Inr (detector_window residual h anglesDim detectorsDim i j 0, 2 * h + 1)"
    unfolding d(1,2,4,5) detector_window_def
    by (rule gather_ok [OF assms(7)]) (simp add: det2D_sample_ok [OF d(8,7) l(1)])
  show "gather (angles2D_sample residual anglesDim detectorsDim j i) h (calloc (2 * h + 1)) =
           Inr (angle_window residual h anglesDim detectorsDim i j 0, 2 * h + 1)"
    unfolding d(1,2,4,5) angle_window_def
    by (rule gather_ok [OF assms(7)]) (simp add: angles2D_sample_ok [OF d(8,7) l(1)])
  show "RingWeights_det2D residual W h (2 * h + 1) anglesDim detectorsDim j i =
           (if h = 0 then Inl WindowOutOfBounds
            else Inr (W[nat (i * detectorsDim + j) :=
              sort (detector_window residual h anglesDim detectorsDim i j 0) ! nat (h - 1)]))"
    unfolding d(1,2,4,5) n
    using det2D_cell [OF d(8,7) l(2,1) assms(7)] by (simp only: order_statistic_def)
  show "RingWeights_angles2D residual W h (2 * h + 1) anglesDim detectorsDim j i =
           (if h = 0 then Inl WindowOutOfBounds
            else Inr (W[nat (i * detectorsDim + j) :=
              sort (angle_window residual h anglesDim detectorsDim i j 0) ! nat (h - 1)]))"
    unfolding d(1,2,4,5) n
    using angles2D_cell [OF d(8,7) l(2,1) assms(7)] by (simp only: order_statistic_def)
qed

lemma windows_nth:
  assumes "- h \<le> t" "t \<le> h"
  shows "detector_window src h A D a d s ! nat (t + h) =
           (if 0 \<le> d + t \<and> d + t < D then src ! nat (D * A * s + a * D + (d + t))
            else src ! nat (D * A * s + a * D + d))"
    and "angle_window src h A D a d s ! nat (t + h) =
           (if 0 \<le> a + t \<and> a + t < A then src ! nat (D * A * s + (a + t) * D + d)
            else src ! nat (D * A * s + a * D + d))"
    and "projection_window src h A D S a d s ! nat (t + h) =
           (if 0 \<le> s + t \<and> s + t < S then src ! nat (D * A * (s + t) + a * D + d)
            else src ! nat (D * A * s + a * D + d))"
  unfolding detector_window_def angle_window_def projection_window_def
  by (simp_all only: window_nth [OF assms] cell_at_index)

section \<open>The claims\<close>

text \<open>
  C1 does not hold as stated: it pairs the two single-axis branches with the wrong
  half-sizes.  With angle and detector half-sizes 0 and projection half-size 1 the driver
  subtracts the projection median, not the detector median; with angle and projection
  half-sizes 0 and detector half-size 1 it subtracts the detector median, not the
  projection median.  (At half-size 0 the order statistic of the specification has no index
  \<open>h - 1\<close>; \<open>nat\<close> reads it as index 0, the value itself, which is the most favourable
  reading of the claimed formula.)
\<close>

theorem single_axis_swapped_counterexample:
  "RingWeights_main [3, 1, 2] [0, 0, 0] 0 0 1 1 1 3 = Inr ([2, 0, 1], 2)
   \<and> RingWeights_main [3, 1, 2] [0, 0, 0] 0 0 1 1 1 3 \<noteq>
       (let w = map2 (-) [3, 1, 2] (DetectorMedian [3, 1, 2] 0 1 1 3) in Inr (w, w ! 0))
   \<and> RingWeights_main [3, 1, 2, 5, 5, 5] [0, 0, 0, 0, 0, 0] 1 0 0 1 3 2 = Inr ([2, 0, 1, 0, 0, 0], 2)
   \<and> RingWeights_main [3, 1, 2, 5, 5, 5] [0, 0, 0, 0, 0, 0] 1 0 0 1 3 2 \<noteq>
       (let w = map2 (-) [3, 1, 2, 5, 5, 5] (ProjectionMedian [3, 1, 2, 5, 5, 5] 0 1 3 2)
        in Inr (w, w ! 0))"
  using main_3D_single_axis [of 3 1 1 "[3, 1, 2]" "[0, 0, 0]" 1 1]
    main_3D_single_axis [of 2 1 3 "[3, 1, 2, 5, 5, 5]" "[0, 0, 0, 0, 0, 0]" 1 1]
  by (simp add: spec_eval)

text \<open>
  C1, as amended.  In the 3D path with angle half-size 0: if the detector half-size is 0 and
  the projection half-size is at least 1, the weights are the residual minus its projection
  median; if the projection half-size is 0 and the detector half-size is at least 1, they
  are the residual minus its detector median.
\<close>

theorem single_axis_3D:
  assumes "1 < slices" "0 < anglesDim" "0 < detectorsDim"
    and "length residual = nat (anglesDim * detectorsDim * slices)"
    and "length weights = nat (anglesDim * detectorsDim * slices)"
  shows "(1 \<le> projectionHalf \<longrightarrow>
            RingWeights_main residual weights 0 0 projectionHalf anglesDim detectorsDim slices =
            (let w = map2 (-) residual
                       (ProjectionMedian residual projectionHalf anglesDim detectorsDim slices)
             in Inr (w, w ! 0)))
       \<and> (1 \<le> detectorHalf \<longrightarrow>
            RingWeights_main residual weights detectorHalf 0 0 anglesDim detectorsDim slices =
            (let w = map2 (-) residual
                       (DetectorMedian residual detectorHalf anglesDim detectorsDim slices)
             in Inr (w, w ! 0)))"
  using assms by (rule main_3D_single_axis)

theorem single_axis_3D_witness:
  "(1::int) < 2 \<and> (0::int) < 1 \<and> (0::int) < 3
     \<and> length [3, 1, 2, 5, 5, 5 :: real] = nat (1 * 3 * 2)
     \<and> length [0, 0, 0, 0, 0, 0 :: real] = nat (1 * 3 * 2) \<and> (1::int) \<le> 1
     \<and> RingWeights_main [3, 1, 2, 5, 5, 5] [0, 0, 0, 0, 0, 0] 0 0 1 1 3 2 =
           Inr ([0, 0, 0, 2, 4, 3], 0)
     \<and> RingWeights_main [3, 1, 2, 5, 5, 5] [0, 0, 0, 0, 0, 0] 1 0 0 1 3 2 =
           Inr ([2, 0, 1, 0, 0, 0], 2)"
  using single_axis_3D [of 2 1 3 "[3, 1, 2, 5, 5, 5]" "[0, 0, 0, 0, 0, 0]" 1 1]
  by (simp add: spec_eval)

text \<open>
  C2.  In the 3D path with all three half-sizes zero the first test of the driver
  (\<^verbatim>\<open>angles == 0 && detectors == 0\<close>) holds, so the projection branch runs and calls
  \<^verbatim>\<open>RingWeights_proj3D\<close> with half-size 0, whose selection index is \<open>-1\<close>: the call
  reads outside its window instead of leaving the weights untouched.
\<close>

theorem all_zero_3D_faults:
  "RingWeights_main [1, 2] [7, 8] 0 0 0 1 1 2 = Inl WindowOutOfBounds"
  using main_3D_all_zero [of 2 1 1 "[1, 2]" "[7, 8]"] by simp

text \<open>
  C3.  A filter called with half-size 0 (the 2D driver does so when the detector half-size
  is 0) gathers its one sample, computes the selection index \<open>-1\<close> and reads
  \<^verbatim>\<open>Values_Vec[-1]\<close>: the value it stores is not an element of the sorted window.  For
  half-sizes of at least 1 the stored value is the element at index \<open>h - 1\<close> of the sorted
  window of \<open>2h+1\<close> samples (\<open>filters_2D_on_volume\<close>, \<open>filters_3D_on_volume\<close>).
\<close>

theorem selected_index_zero_halfsize:
  "gather (det2D_sample [4, 1, 5, 2, 3] 5 2 0) 0 (calloc 1) = Inr ([5], 1)
   \<and> half_trunc 1 - 1 = - 1
   \<and> RingWeights_det2D [4, 1, 5, 2, 3] [0, 0, 0, 0, 0] 0 1 1 5 2 0 = Inl WindowOutOfBounds
   \<and> RingWeights_main [4, 1, 5, 2, 3] [0, 0, 0, 0, 0] 0 0 0 1 5 1 = Inl WindowOutOfBounds"
  using filters_2D_zero(1) [of 2 5 0 1 "[4, 1, 5, 2, 3]" "[0, 0, 0, 0, 0]"]
    main_2D_zero_detector [of 1 5 "[4, 1, 5, 2, 3]" "[0, 0, 0, 0, 0]" 0 0]
  by (simp add: gather_eval half_trunc_def)

text \<open>
  C4.  For each of the five filters, on every pixel of a well-formed volume and for every
  offset \<open>t\<close> from \<open>-h\<close> to \<open>h\<close>: the gathering loop of the filter fills the window whose
  cell \<open>t + h\<close> is the source value at the neighbour when the neighbour coordinate lies on
  the axis and the source value at the flat index of the centre pixel when it does not, and
  the filter stores the order statistic of exactly that window.  For the row 10, 1, 1 and
  \<open>h = 1\<close> the detector filter stores 1 at the first column; for the row 9, 1, 5, 7,
  \<open>h = 3\<close> and the third column the window is 5, 9, 1, 5, 7, 5, 5 (a clamped, reflected or
  wrapped window would differ) and the stored value is 5.
\<close>

theorem boundary_substitution:
  assumes "0 \<le> j" "j < detectorsDim" "0 \<le> i" "i < anglesDim" "0 \<le> k" "k < slices"
    and "length residual = nat (anglesDim * detectorsDim * slices)"
    and "length W = nat (anglesDim * detectorsDim * slices)"
    and "length residual2 = nat (anglesDim * detectorsDim)"
    and "length W2 = nat (anglesDim * detectorsDim)"
    and "- h \<le> t" "t \<le> h"
  shows "gather (det2D_sample residual2 detectorsDim j i) h (calloc (2 * h + 1)) =
           Inr (detector_window residual2 h anglesDim detectorsDim i j 0, 2 * h + 1)
       \<and> detector_window residual2 h anglesDim detectorsDim i j 0 ! nat (t + h) =
           (if 0 \<le> j + t \<and> j + t < detectorsDim
            then residual2 ! nat (i * detectorsDim + (j + t))
            else residual2 ! nat (i * detectorsDim + j))
       \<and> RingWeights_det2D residual2 W2 h (2 * h + 1) anglesDim detectorsDim j i =
           (if h = 0 then Inl WindowOutOfBounds
            else Inr (W2[nat (i * detectorsDim + j) :=
              sort (detector_window residual2 h anglesDim detectorsDim i j 0) ! nat (h - 1)]))
       \<and> gather (angles2D_sample residual2 anglesDim detectorsDim j i) h (calloc (2 * h + 1)) =
           Inr (angle_window residual2 h anglesDim detectorsDim i j 0, 2 * h + 1)
       \<and> angle_window residual2 h anglesDim detectorsDim i j 0 ! nat (t + h) =
           (if 0 \<le> i + t \<and> i + t < anglesDim
            then residual2 ! nat ((i + t) * detectorsDim + j)
            else residual2 ! nat (i * detectorsDim + j))
       \<and> RingWeights_angles2D residual2 W2 h (2 * h + 1) anglesDim detectorsDim j i =
           (if h = 0 then Inl WindowOutOfBounds
            else Inr (W2[nat (i * detectorsDim + j) :=
              sort (angle_window residual2 h anglesDim detectorsDim i j 0) ! nat (h - 1)]))
       \<and> gather (proj3D_sample residual anglesDim detectorsDim slices j i k) h (calloc (2 * h + 1)) =
           Inr (projection_window residual h anglesDim detectorsDim slices i j k, 2 * h + 1)
       \<and> projection_window residual h anglesDim detectorsDim slices i j k ! nat (t + h) =
           (if 0 \<le> k + t \<and> k + t < slices
            then residual ! nat (detectorsDim * anglesDim * (k + t) + i * detectorsDim + j)
            else residual ! nat (detectorsDim * anglesDim * k + i * detectorsDim + j))
       \<and> RingWeights_proj3D residual W h (2 * h + 1) anglesDim detectorsDim slices j i k =
           (if h = 0 then Inl WindowOutOfBounds
            else Inr (W[nat (detectorsDim * anglesDim * k + i * detectorsDim + j) :=
              sort (projection_window residual h anglesDim detectorsDim slices i j k) ! nat (h - 1)]))
       \<and> gather (det3D_sample residual anglesDim detectorsDim j i k) h (calloc (2 * h + 1)) =
           Inr (detector_window residual h anglesDim detectorsDim i j k, 2 * h + 1)
       \<and> detector_window residual h anglesDim detectorsDim i j k ! nat (t + h) =
           (if 0 \<le> j + t \<and> j + t < detectorsDim
            then residual ! nat (detectorsDim * anglesDim * k + i * detectorsDim + (j + t))
            else residual ! nat (detectorsDim * anglesDim * k + i * detectorsDim + j))
       \<and> RingWeights_det3D residual W h (2 * h + 1) anglesDim detectorsDim slices j i k =
           (if h = 0 then Inl WindowOutOfBounds
            else Inr (W[nat (detectorsDim * anglesDim * k + i * detectorsDim + j) :=
              sort (detector_window residual h anglesDim detectorsDim i j k) ! nat (h - 1)]))
       \<and> gather (angles3D_sample residual anglesDim detectorsDim j i k) h (calloc (2 * h + 1)) =
           Inr (angle_window residual h anglesDim detectorsDim i j k, 2 * h + 1)
       \<and> angle_window residual h anglesDim detectorsDim i j k ! nat (t + h) =
           (if 0 \<le> i + t \<and> i + t < anglesDim
            then residual ! nat (detectorsDim * anglesDim * k + (i + t) * detectorsDim + j)
            else residual ! nat (detectorsDim * anglesDim * k + i * detectorsDim + j))
       \<and> RingWeights_angles3D residual W h (2 * h + 1) anglesDim detectorsDim slices j i k =
           (if h = 0 then Inl WindowOutOfBounds
            else Inr (W[nat (detectorsDim * anglesDim * k + i * detectorsDim + j) :=
              sort (angle_window residual h anglesDim detectorsDim i j k) ! nat (h - 1)]))
       \<and> RingWeights_det2D [10, 1, 1] [0, 0, 0] 1 3 1 3 0 0 = Inr [1, 0, 0]
       \<and> gather (det2D_sample [9, 1, 5, 7] 4 2 0) 3 (calloc 7) = Inr ([5, 9, 1, 5, 7, 5, 5], 7)
       \<and> RingWeights_det2D [9, 1, 5, 7] [0, 0, 0, 0] 3 7 1 4 2 0 = Inr [0, 0, 5, 0]"
proof -
  have h0: "0 \<le> h" using assms(11,12) by simp
  note f3 = filters_3D_on_volume [OF assms(1-8) h0]
  note f2 = filters_2D_on_volume [OF assms(1-4,9,10) h0]
  note wn = windows_nth [OF assms(11,12)]
  have w2: "detector_window residual2 h anglesDim detectorsDim i j 0 ! nat (t + h) =
           (if 0 \<le> j + t \<and> j + t < detectorsDim
            then residual2 ! nat (i * detectorsDim + (j + t))
            else residual2 ! nat (i * detectorsDim + j))"
    "angle_window residual2 h anglesDim detectorsDim i j 0 ! nat (t + h) =
           (if 0 \<le> i + t \<and> i + t < anglesDim
            then residual2 ! nat ((i + t) * detectorsDim + j)
            else residual2 ! nat (i * detectorsDim + j))"
    using wn(1) [where src = residual2 and A = anglesDim and D = detectorsDim and a = i
          and d = j and s = 0]
      wn(2) [where src = residual2 and A = anglesDim and D = detectorsDim and a = i
          and d = j and s = 0]
    by simp_all
  have ex1: "RingWeights_det2D [10, 1, 1] [0, 0, 0] 1 3 1 3 0 0 = Inr [1, 0, 0]"
    using det2D_cell [of 0 3 0 1 "[0, 0, 0]" "[10, 1, 1]" 1] by (simp add: spec_eval)
  have ex2: "gather (det2D_sample [9, 1, 5, 7] 4 2 0) 3 (calloc 7) = Inr ([5, 9, 1, 5, 7, 5, 5], 7)"
    by (simp add: gather_eval)
  have ex3: "RingWeights_det2D [9, 1, 5, 7] [0, 0, 0, 0] 3 7 1 4 2 0 = Inr [0, 0, 5, 0]"
    using det2D_cell [of 2 4 0 1 "[0, 0, 0, 0]" "[9, 1, 5, 7]" 3] by (simp add: spec_eval)
  show ?thesis
    by (intro conjI f2 f3 w2 wn ex1 ex2 ex3)
qed

theorem boundary_substitution_witness:
  "(0::int) \<le> 0 \<and> (0::int) < 2
   \<and> length [5, 3, 8, 1, 7, 2, 6, 4 :: real] = nat (2 * 2 * 2)
   \<and> length [0, 0, 0, 0, 0, 0, 0, 0 :: real] = nat (2 * 2 * 2)
   \<and> length [5, 3, 8, 1 :: real] = nat (2 * 2) \<and> length [0, 0, 0, 0 :: real] = nat (2 * 2)
   \<and> - (1::int) \<le> - 1 \<and> - (1::int) \<le> 1
   \<and> gather (det2D_sample [5, 3, 8, 1] 2 0 0) 1 (calloc 3) = Inr ([5, 5, 3], 3)
   \<and> RingWeights_det2D [5, 3, 8, 1] [0, 0, 0, 0] 1 3 2 2 0 0 = Inr [3, 0, 0, 0]
   \<and> gather (angles2D_sample [5, 3, 8, 1] 2 2 0 0) 1 (calloc 3) = Inr ([5, 5, 8], 3)
   \<and> RingWeights_angles2D [5, 3, 8, 1] [0, 0, 0, 0] 1 3 2 2 0 0 = Inr [5, 0, 0, 0]
   \<and> gather (proj3D_sample [5, 3, 8, 1, 7, 2, 6, 4] 2 2 2 0 0 0) 1 (calloc 3) = Inr ([5, 5, 7], 3)
   \<and> RingWeights_proj3D [5, 3, 8, 1, 7, 2, 6, 4] [0, 0, 0, 0, 0, 0, 0, 0] 1 3 2 2 2 0 0 0 =
        Inr [5, 0, 0, 0, 0, 0, 0, 0]
   \<and> gather (det3D_sample [5, 3, 8, 1, 7, 2, 6, 4] 2 2 0 0 0) 1 (calloc 3) = Inr ([5, 5, 3], 3)
   \<and> RingWeights_det3D [5, 3, 8, 1, 7, 2, 6, 4] [0, 0, 0, 0, 0, 0, 0, 0] 1 3 2 2 2 0 0 0 =
        Inr [3, 0, 0, 0, 0, 0, 0, 0]
   \<and> gather (angles3D_sample [5, 3, 8, 1, 7, 2, 6, 4] 2 2 0 0 0) 1 (calloc 3) = Inr ([5, 5, 8], 3)
   \<and> RingWeights_angles3D [5, 3, 8, 1, 7, 2, 6, 4] [0, 0, 0, 0, 0, 0, 0, 0] 1 3 2 2 2 0 0 0 =
        Inr [5, 0, 0, 0, 0, 0, 0, 0]"
  using boundary_substitution [where h = 1 and t = "- 1" and residual = "[5, 3, 8, 1, 7, 2, 6, 4]"
      and W = "[0, 0, 0, 0, 0, 0, 0, 0]" and ?residual2.0 = "[5, 3, 8, 1]" and ?W2.0 = "[0, 0, 0, 0]"
      and anglesDim = 2 and detectorsDim = 2 and slices = 2 and j = 0 and i = 0 and k = 0]
  by (simp add: spec_eval)

text \<open>
  C5.  In the 2D path with detector half-size 0 both branches call
  \<^verbatim>\<open>RingWeights_det2D\<close> with half-size 0, which reads outside its window: the weights
  are not the residual (or its angle median) minus the detector median.  For a detector
  half-size of at least 1 both formulas of the 2D table hold (\<open>main_2D\<close>).
\<close>

theorem dispatch_2D_zero_detector:
  "RingWeights_main [10, 1, 1] [0, 0, 0] 0 0 0 1 3 1 = Inl WindowOutOfBounds
   \<and> RingWeights_main [10, 1, 1] [0, 0, 0] 0 0 0 1 3 1 \<noteq>
       (let w = map2 (-) [10, 1, 1] (DetectorMedian [10, 1, 1] 0 1 3 1) in Inr (w, w ! 0))
   \<and> RingWeights_main [1, 2, 3, 4] [0, 0, 0, 0] 0 1 0 2 2 1 = Inl WindowOutOfBounds
   \<and> RingWeights_main [1, 2, 3, 4] [0, 0, 0, 0] 0 1 0 2 2 1 \<noteq>
       (let w = map2 (-) (AngleMedian [1, 2, 3, 4] 1 2 2 1) (DetectorMedian [1, 2, 3, 4] 0 2 2 1)
        in Inr (w, w ! 0))"
  using main_2D_zero_detector [of 1 3 "[10, 1, 1]" "[0, 0, 0]" 0 0]
    main_2D_zero_detector [of 2 2 "[1, 2, 3, 4]" "[0, 0, 0, 0]" 1 0]
  by (simp add: Let_def)

text \<open>
  C6.  In the 3D path with all three half-sizes non-zero, every cell of the weights is the
  angle median minus half the sum of the projection median and the detector median, each
  median taken of the residual along its own axis.
\<close>

theorem three_way_3D:
  assumes "1 < slices" "0 < anglesDim" "0 < detectorsDim"
    and "length residual = nat (anglesDim * detectorsDim * slices)"
    and "length weights = nat (anglesDim * detectorsDim * slices)"
    and "0 \<le> angleHalf" "0 \<le> projectionHalf" "0 \<le> detectorHalf"
    and "angleHalf \<noteq> 0" "projectionHalf \<noteq> 0" "detectorHalf \<noteq> 0"
  shows "RingWeights_main residual weights detectorHalf angleHalf projectionHalf
           anglesDim detectorsDim slices =
         (let w = map3 (\<lambda>a p d. a - 0.5 * (p + d))
                    (AngleMedian residual angleHalf anglesDim detectorsDim slices)
                    (ProjectionMedian residual projectionHalf anglesDim detectorsDim slices)
                    (DetectorMedian residual detectorHalf anglesDim detectorsDim slices)
          in Inr (w, w ! 0))"
  using assms by (rule main_3D_all)

theorem three_way_3D_witness:
  "(1::int) < 2 \<and> (0::int) < 1 \<and> (0::int) < 2
     \<and> length [1, 2, 3, 4 :: real] = nat (1 * 2 * 2) \<and> length [0, 0, 0, 0 :: real] = nat (1 * 2 * 2)
     \<and> (0::int) \<le> 1 \<and> (1::int) \<noteq> 0
     \<and> RingWeights_main [1, 2, 3, 4] [0, 0, 0, 0] 1 1 1 1 2 2 = Inr ([0, 1 / 2, 1, 3 / 2], 0)"
  using three_way_3D [of 2 1 2 "[1, 2, 3, 4]" "[0, 0, 0, 0]" 1 1 1]
  by (simp add: spec_eval)

text \<open>
  C7 (rejection of a non-positive extent before any buffer access) does not hold.  With
  \<open>anglesDim = 0\<close> the call returns normally with the weights unchanged; with
  \<open>anglesDim = detectorsDim = -1\<close> the elementwise loop runs once, reads \<open>residual[0]\<close> and
  overwrites \<open>weights[0]\<close>.
\<close>

theorem no_dimension_check_counterexample:
  "RingWeights_main [1] [7] 1 1 1 0 1 1 = Inr ([7], 7)
   \<and> RingWeights_main [4] [7] 1 0 1 (- 1) (- 1) 1 = Inr ([4], 4)"
  by (simp add: RingWeights_main_def Let_def branch2D_angles_detectors_def
      branch2D_detectors_def loop2D_empty store_each_def for_upto_def calloc_def lift2_def
      rd_def wr_def)

text \<open>
  C7, as amended.  The driver tests no extent and has no rejection path.  When the product
  of the three extents is not positive (so that some extent is \<open>\<le> 0\<close>, in particular when
  some extent is 0), no loop body runs: the call returns normally, the weights buffer is
  unchanged and the returned value is its first cell.
\<close>

theorem empty_volume_returns_unchanged:
  assumes "anglesDim \<le> 0 \<or> detectorsDim \<le> 0 \<or> slices \<le> 0"
    and "anglesDim * detectorsDim * slices \<le> 0" and "weights \<noteq> []"
  shows "RingWeights_main residual weights window_halfsize_detectors window_halfsize_angles
           window_halfsize_projections anglesDim detectorsDim slices = Inr (weights, weights ! 0)"
proof -
  have e: "slices \<le> 0 \<or> anglesDim \<le> 0 \<or> detectorsDim \<le> 0"
    using assms(2) by (rule product_nonpos)
  show ?thesis
  proof (cases "slices = 1")
    case True
    with e assms(2) have "anglesDim \<le> 0 \<or> detectorsDim \<le> 0" "anglesDim * detectorsDim \<le> 0"
      by auto
    then show ?thesis using True assms(3)
      by (simp add: RingWeights_main_def Let_def branch2D_angles_detectors_def
          branch2D_detectors_def loop2D_empty store_each_empty rd_first)
  next
    case False
    then show ?thesis using e assms(2,3)
      by (simp add: RingWeights_main_def Let_def when_r_def branch_projections_def
          branch_detectors_def branch_all_def branch_angles_projections_def
          branch_angles_detectors_def branch_projections_detectors_def
          loop3D_empty store_each_empty rd_first)
  qed
qed

theorem empty_volume_returns_unchanged_witness:
  "((0::int) \<le> 0 \<or> (5::int) \<le> 0 \<or> (3::int) \<le> 0) \<and> (0::int) * 5 * 3 \<le> 0 \<and> [7, 8 :: real] \<noteq> []
    \<and> RingWeights_main [1, 2] [7, 8] 1 1 1 0 5 3 = Inr ([7, 8], 7)"
  using empty_volume_returns_unchanged [of 0 5 3 "[7, 8]" "[1, 2]" 1 1 1] by simp

text \<open>
  C8.  With half-size \<open>h \<ge> 1\<close> the selection index \<open>h - 1\<close> lies inside the window of
  \<open>2h+1\<close> cells and no filter call accesses its window out of bounds, whatever its other
  arguments.  With half-size 0 the selection index is \<open>-1\<close>: every filter called on a pixel
  of a well-formed volume reads outside its window, and so does the 2D driver with angle
  and detector half-sizes 0.
\<close>

theorem window_access_in_bounds:
  "(1 \<le> h \<longrightarrow>
      0 \<le> half_trunc (2 * h + 1) - 1 \<and> half_trunc (2 * h + 1) - 1 < 2 * h + 1
      \<and> RingWeights_det2D residual W h (2 * h + 1) anglesDim detectorsDim j i \<noteq> Inl WindowOutOfBounds
      \<and> RingWeights_angles2D residual W h (2 * h + 1) anglesDim detectorsDim j i \<noteq> Inl WindowOutOfBounds
      \<and> RingWeights_proj3D residual W h (2 * h + 1) anglesDim detectorsDim slices j i k \<noteq> Inl WindowOutOfBounds
      \<and> RingWeights_det3D residual W h (2 * h + 1) anglesDim detectorsDim slices j i k \<noteq> Inl WindowOutOfBounds
      \<and> RingWeights_angles3D residual W h (2 * h + 1) anglesDim detectorsDim slices j i k \<noteq> Inl WindowOutOfBounds)
   \<and> half_trunc (2 * 0 + 1) - 1 = - 1
   \<and> (0 \<le> j \<and> j < detectorsDim \<and> 0 \<le> i \<and> i < anglesDim \<and> 0 \<le> k \<and> k < slices
        \<and> length residual = nat (anglesDim * detectorsDim * slices)
        \<and> length W = nat (anglesDim * detectorsDim * slices) \<longrightarrow>
      RingWeights_proj3D residual W 0 1 anglesDim detectorsDim slices j i k = Inl WindowOutOfBounds
      \<and> RingWeights_det3D residual W 0 1 anglesDim detectorsDim slices j i k = Inl WindowOutOfBounds
      \<and> RingWeights_angles3D residual W 0 1 anglesDim detectorsDim slices j i k = Inl WindowOutOfBounds)
   \<and> (0 \<le> j \<and> j < detectorsDim \<and> 0 \<le> i \<and> i < anglesDim
        \<and> length residual2 = nat (anglesDim * detectorsDim)
        \<and> length W2 = nat (anglesDim * detectorsDim) \<longrightarrow>
      RingWeights_det2D residual2 W2 0 1 anglesDim detectorsDim j i = Inl WindowOutOfBounds
      \<and> RingWeights_angles2D residual2 W2 0 1 anglesDim detectorsDim j i = Inl WindowOutOfBounds
      \<and> RingWeights_main residual2 W2 0 0 projectionHalf anglesDim detectorsDim 1 =
            Inl WindowOutOfBounds)"
proof -
  have m: "RingWeights_main residual2 W2 0 0 projectionHalf anglesDim detectorsDim 1 =
            Inl WindowOutOfBounds"
    if "0 \<le> j" "j < detectorsDim" "0 \<le> i" "i < anglesDim"
      "length residual2 = nat (anglesDim * detectorsDim)" "length W2 = nat (anglesDim * detectorsDim)"
    using that by (intro main_2D_zero_detector) simp_all
  have z3: "RingWeights_proj3D residual W 0 1 anglesDim detectorsDim slices j i k = Inl WindowOutOfBounds
      \<and> RingWeights_det3D residual W 0 1 anglesDim detectorsDim slices j i k = Inl WindowOutOfBounds
      \<and> RingWeights_angles3D residual W 0 1 anglesDim detectorsDim slices j i k = Inl WindowOutOfBounds"
    if "0 \<le> j" "j < detectorsDim" "0 \<le> i" "i < anglesDim" "0 \<le> k" "k < slices"
      "length residual = nat (anglesDim * detectorsDim * slices)"
      "length W = nat (anglesDim * detectorsDim * slices)"
    using filters_3D_zero [OF that] by simp
  have z2: "RingWeights_det2D residual2 W2 0 1 anglesDim detectorsDim j i = Inl WindowOutOfBounds
      \<and> RingWeights_angles2D residual2 W2 0 1 anglesDim detectorsDim j i = Inl WindowOutOfBounds"
    if "0 \<le> j" "j < detectorsDim" "0 \<le> i" "i < anglesDim"
      "length residual2 = nat (anglesDim * detectorsDim)" "length W2 = nat (anglesDim * detectorsDim)"
    using filters_2D_zero [OF that] by simp
  have nf: "RingWeights_det2D residual W h (2 * h + 1) anglesDim detectorsDim j i \<noteq> Inl WindowOutOfBounds
      \<and> RingWeights_angles2D residual W h (2 * h + 1) anglesDim detectorsDim j i \<noteq> Inl WindowOutOfBounds
      \<and> RingWeights_proj3D residual W h (2 * h + 1) anglesDim detectorsDim slices j i k \<noteq> Inl WindowOutOfBounds
      \<and> RingWeights_det3D residual W h (2 * h + 1) anglesDim detectorsDim slices j i k \<noteq> Inl WindowOutOfBounds
      \<and> RingWeights_angles3D residual W h (2 * h + 1) anglesDim detectorsDim slices j i k \<noteq> Inl WindowOutOfBounds"
    if "1 \<le> h"
    using filters_no_window_fault [OF that] by simp
  have ix: "0 \<le> half_trunc (2 * h + 1) - 1 \<and> half_trunc (2 * h + 1) - 1 < 2 * h + 1" if "1 \<le> h"
    using that by (simp add: half_trunc_def)
  have i0: "half_trunc (2 * 0 + 1) - 1 = - 1" by (simp add: half_trunc_def)
  show ?thesis using m z3 z2 nf ix i0 by blast
qed

theorem window_access_in_bounds_witness:
  "(1::int) \<le> 1
   \<and> RingWeights_det2D [5, 3, 8, 1] [0, 0, 0, 0] 1 3 2 2 0 0 \<noteq> Inl WindowOutOfBounds
   \<and> RingWeights_det3D [5, 3, 8, 1, 7, 2, 6, 4] [0, 0, 0, 0, 0, 0, 0, 0] 1 3 2 2 2 0 0 0 \<noteq>
        Inl WindowOutOfBounds
   \<and> (0::int) \<le> 0 \<and> (0::int) < 2
   \<and> length [5, 3, 8, 1, 7, 2, 6, 4 :: real] = nat (2 * 2 * 2)
   \<and> length [0, 0, 0, 0, 0, 0, 0, 0 :: real] = nat (2 * 2 * 2)
   \<and> RingWeights_proj3D [5, 3, 8, 1, 7, 2, 6, 4] [0, 0, 0, 0, 0, 0, 0, 0] 0 1 2 2 2 0 0 0 =
        Inl WindowOutOfBounds
   \<and> length [5, 3, 8, 1 :: real] = nat (2 * 2) \<and> length [0, 0, 0, 0 :: real] = nat (2 * 2)
   \<and> RingWeights_det2D [5, 3, 8, 1] [0, 0, 0, 0] 0 1 2 2 0 0 = Inl WindowOutOfBounds
   \<and> RingWeights_main [5, 3, 8, 1] [0, 0, 0, 0] 0 0 0 2 2 1 = Inl WindowOutOfBounds"
  using window_access_in_bounds [where h = 1 and residual = "[5, 3, 8, 1, 7, 2, 6, 4]"
      and W = "[0, 0, 0, 0, 0, 0, 0, 0]" and ?residual2.0 = "[5, 3, 8, 1]" and ?W2.0 = "[0, 0, 0, 0]"
      and anglesDim = 2 and detectorsDim = 2 and slices = 2 and j = 0 and i = 0 and k = 0
      and projectionHalf = 0]
    window_access_in_bounds [where h = 1 and residual = "[5, 3, 8, 1]"
      and W = "[0, 0, 0, 0]" and anglesDim = 2 and detectorsDim = 2 and j = 0 and i = 0]
  by simp

text \<open>
  C10.  In the 3D path (more than one slice) with a non-zero angle half-size and the
  projection and detector half-sizes both zero, none of the six tests of the driver
  holds: the weights buffer is returned as it was passed.
\<close>

theorem angles_only_3D_untouched:
  assumes "1 < slices" "window_halfsize_angles \<noteq> 0" "weights \<noteq> []"
  shows "RingWeights_main residual weights 0 window_halfsize_angles 0
           anglesDim detectorsDim slices = Inr (weights, weights ! 0)"
  using assms by (simp add: RingWeights_main_def Let_def when_r_def rd_first)

theorem angles_only_3D_untouched_witness:
  "(1::int) < 2 \<and> (3::int) \<noteq> 0 \<and> [7, 8 :: real] \<noteq> []
     \<and> RingWeights_main [1, 2] [7, 8] 0 3 0 1 1 2 = Inr ([7, 8], 7)"
  using angles_only_3D_untouched [of 2 3 "[7, 8]" "[1, 2]" 1 1] by simp

text \<open>
  C9.  On a constant residual the 2D branch for angle half-size 0 applies for every detector
  half-size; with detector half-size 0 it calls \<^verbatim>\<open>RingWeights_det2D\<close> with half-size
  0, which reads outside its window, so no all-zero weights are produced.  (When every
  filter that runs has a half-size of at least 1 the weights are all zero:
  \<open>constant_volume_zero_weights\<close>.)
\<close>

theorem constant_zero_detector_faults:
  "RingWeights_main [5, 5, 5, 5] [0, 0, 0, 0] 0 0 0 1 4 1 = Inl WindowOutOfBounds"
  using main_2D_zero_detector [of 1 4 "[5, 5, 5, 5]" "[0, 0, 0, 0]" 0 0] by simp

end
